theory Spec2Isabelle
  imports Complex_Main "HOL-Library.Word"
begin

section \<open>The Number type of the language: IEEE 754 binary64\<close>

text \<open>
  The module computes with JavaScript numbers, which are IEEE 754 binary64 values. A value
  is its three fields: the sign bit, the 11-bit biased exponent and the 52-bit fraction,
  so every inhabitant of the type is a number the program can hold. Exponent field 2047
  is an infinity (fraction zero) or a NaN; exponent field 0 is a zero or a subnormal.
\<close>

datatype double = Double (sign: bool) (expo: "11 word") (frac: "52 word")

definition NaN :: double where
  "NaN = Double False 2047 (2 ^ 51)"

definition Infinity :: "bool \<Rightarrow> double" where
  "Infinity s = Double s 2047 0"

definition Zero :: "bool \<Rightarrow> double" where
  "Zero s = Double s 0 0"

definition isNaN :: "double \<Rightarrow> bool" where
  "isNaN v \<longleftrightarrow> expo v = 2047 \<and> frac v \<noteq> 0"

definition isFinite :: "double \<Rightarrow> bool" where
  "isFinite v \<longleftrightarrow> expo v \<noteq> 2047"

definition is_zero :: "double \<Rightarrow> bool" where
  "is_zero v \<longleftrightarrow> expo v = 0 \<and> frac v = 0"

text \<open>
  The strict equality \<open>===\<close> of the language on numbers (a NaN equals nothing, the two
  zeros are equal), and its SameValueZero comparison, which also equates NaN with NaN.
\<close>

definition strict_equal :: "double \<Rightarrow> double \<Rightarrow> bool" where
  "strict_equal u v \<longleftrightarrow> \<not> isNaN u \<and> \<not> isNaN v \<and> (u = v \<or> (is_zero u \<and> is_zero v))"

definition same_value_zero :: "double \<Rightarrow> double \<Rightarrow> bool" where
  "same_value_zero u v \<longleftrightarrow> (isNaN u \<and> isNaN v) \<or> u = v \<or> (is_zero u \<and> is_zero v)"

text \<open>
  The unpacked view of a number: a finite one is \<open>UFin s m e\<close>, of value
  \<open>(-1)\<^sup>s \<sqdot> m \<sqdot> 2\<^sup>e\<close> with \<open>m < 2\<^sup>5\<^sup>3\<close> and \<open>- 1074 \<le> e \<le> 971\<close>.
\<close>

datatype unpacked = UNaN | UInf bool | UFin bool nat int

definition unpack_fields :: "bool \<Rightarrow> nat \<Rightarrow> nat \<Rightarrow> unpacked" where
  "unpack_fields s E F =
    (if E = 2047 then (if F = 0 then UInf s else UNaN)
     else if E = 0 then UFin s F (- 1074)
     else UFin s (2 ^ 52 + F) (int E - 1075))"

definition unpack :: "double \<Rightarrow> unpacked" where
  "unpack v = unpack_fields (sign v) (unat (expo v)) (unat (frac v))"

text \<open>
  The pairs \<open>(m, e)\<close> that \<open>unpack\<close> yields: a significand below \<open>2\<^sup>5\<^sup>3\<close>, at least
  \<open>2\<^sup>5\<^sup>2\<close> unless the exponent is the least one.
\<close>

definition canonical :: "nat \<Rightarrow> int \<Rightarrow> bool" where
  "canonical m e \<longleftrightarrow> m < 2 ^ 53 \<and> - 1074 \<le> e \<and> e \<le> 971 \<and> (e = - 1074 \<or> 2 ^ 52 \<le> m)"

fun bit_length :: "nat \<Rightarrow> nat" where
  "bit_length n = (if n = 0 then 0 else Suc (bit_length (n div 2)))"

declare bit_length.simps [simp del]

text \<open>
  \<open>rne_shift n k\<close> is \<open>n / 2\<^sup>k\<close> rounded to the nearest integer, ties to even:
  \<open>rne q r2 h\<close> rounds the quotient \<open>q\<close> up when twice the remainder exceeds the divisor
  \<open>h\<close>, or equals it and \<open>q\<close> is odd.
\<close>

definition rne :: "nat \<Rightarrow> nat \<Rightarrow> nat \<Rightarrow> nat" where
  "rne q r2 h = (if h < r2 \<or> (r2 = h \<and> odd q) then q + 1 else q)"

definition rne_shift :: "nat \<Rightarrow> nat \<Rightarrow> nat" where
  "rne_shift n k = rne (n div 2 ^ k) (2 * (n mod 2 ^ k)) (2 ^ k)"

text \<open>
  \<open>round_dyadic s n e\<close> is the number nearest to \<open>(-1)\<^sup>s \<sqdot> n \<sqdot> 2\<^sup>e\<close> (round to nearest,
  ties to even, the only rounding mode of the language). The quantum \<open>2\<^sup>q\<close> of the result
  is chosen from the bit length of \<open>n\<close> (\<open>round_at\<close>), the significand is rounded to 53
  bits, a carry into the 54th bit moves to the next binade (\<open>pack_carry\<close>), and a result
  beyond the largest finite number is an infinity (\<open>pack\<close>).
\<close>

definition pack :: "bool \<Rightarrow> nat \<Rightarrow> int \<Rightarrow> double" where
  "pack s m q =
    (if 971 < q then Infinity s
     else if m < 2 ^ 52 then Double s 0 (of_nat m)
     else Double s (of_nat (nat (q + 1075))) (of_nat (m - 2 ^ 52)))"

definition pack_carry :: "bool \<Rightarrow> nat \<Rightarrow> int \<Rightarrow> double" where
  "pack_carry s m q = (if m = 2 ^ 53 then pack s (2 ^ 52) (q + 1) else pack s m q)"

definition round_at :: "bool \<Rightarrow> nat \<Rightarrow> int \<Rightarrow> int \<Rightarrow> double" where
  "round_at s n e q = pack_carry s (rne_shift (n * 2 ^ nat (e - q)) (nat (q - e))) q"

definition round_dyadic :: "bool \<Rightarrow> nat \<Rightarrow> int \<Rightarrow> double" where
  "round_dyadic s n e =
    (if n = 0 then Zero s
     else round_at s n e (max (e + int (bit_length n) - 53) (- 1074)))"

text \<open>
  \<open>round_ratio s m n x\<close> is the number nearest to \<open>(-1)\<^sup>s \<sqdot> (m / n) \<sqdot> 2\<^sup>x\<close>, for \<open>n > 0\<close>:
  a quotient of at least 65 bits, with a sticky last bit that records a non-zero remainder.
\<close>

definition jam_round :: "bool \<Rightarrow> nat \<Rightarrow> nat \<Rightarrow> nat \<Rightarrow> int \<Rightarrow> double" where
  "jam_round s m n j x =
    round_dyadic s (2 * ((m * 2 ^ j) div n) + (if (m * 2 ^ j) mod n = 0 then 0 else 1))
      (x - int j - 1)"

definition round_ratio :: "bool \<Rightarrow> nat \<Rightarrow> nat \<Rightarrow> int \<Rightarrow> double" where
  "round_ratio s m n x = jam_round s m n (bit_length n + 64) x"

definition with_sign :: "bool \<Rightarrow> nat \<Rightarrow> int" where
  "with_sign s n = (if s then - int n else int n)"

text \<open>The exponent two finite numbers are aligned to; a zero takes the other's exponent.\<close>

definition common_exp :: "nat \<Rightarrow> int \<Rightarrow> nat \<Rightarrow> int \<Rightarrow> int" where
  "common_exp m e n k = (if m = 0 then k else if n = 0 then e else min e k)"

text \<open>
  Addition: the exact sum of the aligned operands, rounded once. An exact zero sum is
  \<open>-0\<close> only when both operands are negative (both are then \<open>-0\<close>).
\<close>

definition round_signed :: "bool \<Rightarrow> int \<Rightarrow> int \<Rightarrow> double" where
  "round_signed z i l = (if i = 0 then Zero z else round_dyadic (i < 0) (nat \<bar>i\<bar>) l)"

definition add_aligned :: "bool \<Rightarrow> nat \<Rightarrow> int \<Rightarrow> bool \<Rightarrow> nat \<Rightarrow> int \<Rightarrow> int \<Rightarrow> double" where
  "add_aligned s m e t n k l =
    round_signed (s \<and> t) (with_sign s (m * 2 ^ nat (e - l)) + with_sign t (n * 2 ^ nat (k - l))) l"

fun add_unpacked :: "unpacked \<Rightarrow> unpacked \<Rightarrow> double" where
  "add_unpacked UNaN _ = NaN"
| "add_unpacked _ UNaN = NaN"
| "add_unpacked (UInf s) (UInf t) = (if s = t then Infinity s else NaN)"
| "add_unpacked (UInf s) _ = Infinity s"
| "add_unpacked _ (UInf t) = Infinity t"
| "add_unpacked (UFin s m e) (UFin t n k) = add_aligned s m e t n k (common_exp m e n k)"

fun mul_unpacked :: "unpacked \<Rightarrow> unpacked \<Rightarrow> double" where
  "mul_unpacked UNaN _ = NaN"
| "mul_unpacked _ UNaN = NaN"
| "mul_unpacked (UInf s) (UInf t) = Infinity (s \<noteq> t)"
| "mul_unpacked (UInf s) (UFin t n k) = (if n = 0 then NaN else Infinity (s \<noteq> t))"
| "mul_unpacked (UFin s m e) (UInf t) = (if m = 0 then NaN else Infinity (s \<noteq> t))"
| "mul_unpacked (UFin s m e) (UFin t n k) = round_dyadic (s \<noteq> t) (m * n) (e + k)"

fun div_unpacked :: "unpacked \<Rightarrow> unpacked \<Rightarrow> double" where
  "div_unpacked UNaN _ = NaN"
| "div_unpacked _ UNaN = NaN"
| "div_unpacked (UInf s) (UInf t) = NaN"
| "div_unpacked (UInf s) (UFin t n k) = Infinity (s \<noteq> t)"
| "div_unpacked (UFin s m e) (UInf t) = Zero (s \<noteq> t)"
| "div_unpacked (UFin s m e) (UFin t n k) =
    (if n = 0 then (if m = 0 then NaN else Infinity (s \<noteq> t))
     else round_ratio (s \<noteq> t) m n (e - k))"

text \<open>
  The remainder operator \<open>%\<close>: the result has the sign of the dividend and is exact
  (truncating division), so the rounding below never changes the value.
\<close>

definition rem_aligned :: "bool \<Rightarrow> nat \<Rightarrow> int \<Rightarrow> nat \<Rightarrow> int \<Rightarrow> int \<Rightarrow> double" where
  "rem_aligned s m e n k l =
    round_dyadic s ((m * 2 ^ nat (e - l)) mod (n * 2 ^ nat (k - l))) l"

fun rem_unpacked :: "unpacked \<Rightarrow> unpacked \<Rightarrow> double" where
  "rem_unpacked UNaN _ = NaN"
| "rem_unpacked _ UNaN = NaN"
| "rem_unpacked (UInf s) _ = NaN"
| "rem_unpacked (UFin s m e) (UInf t) = round_dyadic s m e"
| "rem_unpacked (UFin s m e) (UFin t n k) =
    (if n = 0 then NaN else rem_aligned s m e n k (min e k))"

definition lt_aligned :: "bool \<Rightarrow> nat \<Rightarrow> int \<Rightarrow> bool \<Rightarrow> nat \<Rightarrow> int \<Rightarrow> int \<Rightarrow> bool" where
  "lt_aligned s m e t n k l \<longleftrightarrow>
    with_sign s (m * 2 ^ nat (e - l)) < with_sign t (n * 2 ^ nat (k - l))"

definition le_aligned :: "bool \<Rightarrow> nat \<Rightarrow> int \<Rightarrow> bool \<Rightarrow> nat \<Rightarrow> int \<Rightarrow> int \<Rightarrow> bool" where
  "le_aligned s m e t n k l \<longleftrightarrow>
    with_sign s (m * 2 ^ nat (e - l)) \<le> with_sign t (n * 2 ^ nat (k - l))"

fun lt_unpacked :: "unpacked \<Rightarrow> unpacked \<Rightarrow> bool" where
  "lt_unpacked UNaN _ = False"
| "lt_unpacked _ UNaN = False"
| "lt_unpacked (UInf s) (UInf t) = (s \<and> \<not> t)"
| "lt_unpacked (UInf s) (UFin t n k) = s"
| "lt_unpacked (UFin s m e) (UInf t) = (\<not> t)"
| "lt_unpacked (UFin s m e) (UFin t n k) = lt_aligned s m e t n k (common_exp m e n k)"

fun le_unpacked :: "unpacked \<Rightarrow> unpacked \<Rightarrow> bool" where
  "le_unpacked UNaN _ = False"
| "le_unpacked _ UNaN = False"
| "le_unpacked (UInf s) (UInf t) = (s \<or> \<not> t)"
| "le_unpacked (UInf s) (UFin t n k) = s"
| "le_unpacked (UFin s m e) (UInf t) = (\<not> t)"
| "le_unpacked (UFin s m e) (UFin t n k) = le_aligned s m e t n k (common_exp m e n k)"

text \<open>
  The arithmetic operators of the source are the operations of this type:
  \<open>+\<close>, \<open>-\<close>, \<open>*\<close>, \<open>/\<close>, \<open>%\<close> (written \<open>mod\<close>), \<open><\<close> and \<open>>\<close>, and the literals
  \<open>0\<close> and \<open>1\<close>. Subtraction is addition of the negated operand, as the language defines it.
\<close>

definition negate :: "double \<Rightarrow> double" where
  "negate v = Double (\<not> sign v) (expo v) (frac v)"

instantiation double :: "{zero, one, plus, uminus, minus, times, inverse, modulo, abs, ord}"
begin

definition zero_double_def: "0 = Zero False"

definition one_double_def: "1 = Double False 1023 0"

definition plus_double_def: "x + y = add_unpacked (unpack x) (unpack y)"

definition uminus_double_def: "- x = negate x"

definition minus_double_def: "x - y = add_unpacked (unpack x) (unpack (negate y))"

definition times_double_def: "x * y = mul_unpacked (unpack x) (unpack y)"

definition divide_double_def: "x div y = div_unpacked (unpack x) (unpack y)"

definition inverse_double_def: "inverse x = div_unpacked (unpack (Double False 1023 0)) (unpack x)"

definition modulo_double_def: "x mod y = rem_unpacked (unpack x) (unpack y)"

definition abs_double_def: "\<bar>x\<bar> = Double False (expo x) (frac x)"

definition less_double_def: "x < y \<longleftrightarrow> lt_unpacked (unpack x) (unpack y)"

definition less_eq_double_def: "x \<le> y \<longleftrightarrow> le_unpacked (unpack x) (unpack y)"

instance ..

end

text \<open>
  A decimal literal \<open>d\<close>e\<open>p\<close> of the source denotes the number nearest to \<open>d \<sqdot> 10\<^sup>p\<close>;
  \<open>pow2 e\<close> is the number \<open>2\<^sup>e\<close> (\<open>2 ** e\<close> in the language).
\<close>

definition pow2 :: "int \<Rightarrow> double" where
  "pow2 e = round_dyadic False 1 e"

definition of_decimal :: "int \<Rightarrow> int \<Rightarrow> double" where
  "of_decimal d p =
    (if 0 \<le> p then round_dyadic (d < 0) (nat \<bar>d\<bar> * 10 ^ nat p) 0
     else round_ratio (d < 0) (nat \<bar>d\<bar>) (10 ^ nat (- p)) 0)"

subsection \<open>The Math functions the module calls\<close>

text \<open>
  \<open>Math.abs\<close> clears the sign. \<open>Math.max\<close> returns NaN when an argument is NaN and
  ranks \<open>+0\<close> above \<open>-0\<close>. \<open>Math.sqrt\<close> is the correctly rounded square root.
  The language leaves \<open>Math.pow\<close> and \<open>Math.hypot\<close> implementation-approximated; they
  are taken correctly rounded here: \<open>Math.pow(v, 2)\<close> as the rounded square and
  \<open>Math.hypot(u, v)\<close> as the rounded root of the exact sum of squares.
\<close>

definition Math_abs :: "double \<Rightarrow> double" where
  "Math_abs v = \<bar>v\<bar>"

definition Math_max :: "double \<Rightarrow> double \<Rightarrow> double" where
  "Math_max u v =
    (if isNaN u \<or> isNaN v then NaN
     else if u < v then v
     else if v < u then u
     else if sign u then v else u)"

definition isqrt_step :: "nat \<Rightarrow> nat \<Rightarrow> nat \<Rightarrow> nat" where
  "isqrt_step n r c = (if c * c \<le> n then c else r)"

fun isqrt_bits :: "nat \<Rightarrow> nat \<Rightarrow> nat \<Rightarrow> nat" where
  "isqrt_bits n k r =
    (if k = 0 then r else isqrt_bits n (k - 1) (isqrt_step n r (r + 2 ^ (k - 1))))"

declare isqrt_bits.simps [simp del]

definition isqrt :: "nat \<Rightarrow> nat" where
  "isqrt n = isqrt_bits n ((bit_length n + 1) div 2) 0"

text \<open>
  \<open>sqrt_dyadic n e\<close> is the number nearest to the square root of \<open>n \<sqdot> 2\<^sup>e\<close>: the radicand
  is scaled to at least 112 bits and an even exponent, and the integer root gets a sticky
  last bit when it is not exact.
\<close>

definition sqrt_jam :: "nat \<Rightarrow> nat \<Rightarrow> int \<Rightarrow> double" where
  "sqrt_jam n r x = round_dyadic False (2 * r + (if r * r = n then 0 else 1)) x"

definition sqrt_even :: "nat \<Rightarrow> int \<Rightarrow> double" where
  "sqrt_even n e = sqrt_jam n (isqrt n) (e div 2 - 1)"

definition sqrt_scaled :: "nat \<Rightarrow> int \<Rightarrow> double" where
  "sqrt_scaled n e = (if odd e then sqrt_even (2 * n) (e - 1) else sqrt_even n e)"

definition sqrt_dyadic :: "nat \<Rightarrow> int \<Rightarrow> double" where
  "sqrt_dyadic n e =
    (if n = 0 then Zero False
     else sqrt_scaled (n * 2 ^ (2 * (56 - bit_length n div 2)))
            (e - 2 * int (56 - bit_length n div 2)))"

fun sqrt_unpacked :: "unpacked \<Rightarrow> double" where
  "sqrt_unpacked UNaN = NaN"
| "sqrt_unpacked (UInf s) = (if s then NaN else Infinity False)"
| "sqrt_unpacked (UFin s m e) =
    (if m = 0 then Zero s else if s then NaN else sqrt_dyadic m e)"

definition Math_sqrt :: "double \<Rightarrow> double" where
  "Math_sqrt v = sqrt_unpacked (unpack v)"

definition hypot_aligned :: "nat \<Rightarrow> int \<Rightarrow> nat \<Rightarrow> int \<Rightarrow> int \<Rightarrow> double" where
  "hypot_aligned m e n k l =
    sqrt_dyadic ((m * 2 ^ nat (e - l)) * (m * 2 ^ nat (e - l))
                 + (n * 2 ^ nat (k - l)) * (n * 2 ^ nat (k - l))) (2 * l)"

fun hypot_unpacked :: "unpacked \<Rightarrow> unpacked \<Rightarrow> double" where
  "hypot_unpacked (UInf s) _ = Infinity False"
| "hypot_unpacked _ (UInf t) = Infinity False"
| "hypot_unpacked UNaN _ = NaN"
| "hypot_unpacked _ UNaN = NaN"
| "hypot_unpacked (UFin s m e) (UFin t n k) = hypot_aligned m e n k (common_exp m e n k)"

definition Math_hypot :: "double \<Rightarrow> double \<Rightarrow> double" where
  "Math_hypot u v = hypot_unpacked (unpack u) (unpack v)"

definition Math_pow2 :: "double \<Rightarrow> double" where
  "Math_pow2 v = v * v"

section \<open>The module\<close>

text \<open>
  The classes \<open>Point\<close> and \<open>Matrix\<close> are immutable records of numbers. The fields
  \<open>x\<close>, \<open>y\<close> and \<open>a\<close> to \<open>f\<close> of the source are the selectors \<open>px\<close>, \<open>py\<close> and \<open>ma\<close> to
  \<open>mf\<close>. The functions that use only the arithmetic operators are written once for any
  type with these operators, and are read at \<^typ>\<open>double\<close> for the program and at
  \<^typ>\<open>real\<close> for the algebra behind it.
\<close>

datatype 'a Point = Point (px: 'a) (py: 'a)

datatype 'a Matrix = Matrix (ma: 'a) (mb: 'a) (mc: 'a) (md: 'a) (me: 'a) (mf: 'a)

text \<open>\<open>new Matrix()\<close>: the default arguments of the constructor.\<close>

definition new_Matrix :: "'a::{zero,one} Matrix" where
  "new_Matrix = Matrix 1 0 0 1 0 0"

text \<open>\<open>Array.prototype.reduce\<close> with an initial value, and \<open>Array.prototype.every\<close>.\<close>

fun reduce :: "'a list \<Rightarrow> ('b \<Rightarrow> 'a \<Rightarrow> 'b) \<Rightarrow> 'b \<Rightarrow> 'b" where
  "reduce [] f acc = acc"
| "reduce (v # vs) f acc = reduce vs f (f acc v)"

fun every :: "'a list \<Rightarrow> ('a \<Rightarrow> bool) \<Rightarrow> bool" where
  "every [] P = True"
| "every (v # vs) P = (P v \<and> every vs P)"

definition equals :: "double Point \<Rightarrow> double Point \<Rightarrow> bool" where
  "equals this p =
    (let diffX = Math_abs (px this - px p);
         diffY = Math_abs (py this - py p)
     in diffX < of_decimal 1 (- 8) \<and> diffY < of_decimal 1 (- 8))"

definition areCollinear :: "double Point list \<Rightarrow> bool" where
  "areCollinear points =
    (if length points < 3 then True
     else let a = px (points ! 0); b = py (points ! 0);
              m = px (points ! 1); n = py (points ! 1)
          in every points (\<lambda>p. a * (n - py p) + m * (py p - b) + px p * (b - n) < of_decimal 1 (- 8)))"

definition transform :: "'a::{plus,times,one} Point \<Rightarrow> 'a Matrix list \<Rightarrow> 'a Point" where
  "transform point matrices =
    reduce matrices
      (\<lambda>p m. Point (ma m * px p + mc m * py p + me m * 1)
                    (mb m * px p + md m * py p + mf m * 1))
      (Point (px point) (py point))"

definition distance :: "double Point \<Rightarrow> double Point \<Rightarrow> double" where
  "distance p1 p2 = Math_sqrt (Math_pow2 (px p2 - px p1) + Math_pow2 (py p2 - py p1))"

definition floorMod :: "double \<Rightarrow> double \<Rightarrow> double" where
  "floorMod num maxNum = ((num mod maxNum) + maxNum) mod maxNum"

definition dot :: "'a::{plus,times} Matrix \<Rightarrow> 'a Matrix \<Rightarrow> 'a Matrix" where
  "dot this m =
    Matrix (ma this * ma m + mc this * mb m)
           (mb this * ma m + md this * mb m)
           (ma this * mc m + mc this * md m)
           (mb this * mc m + md this * md m)
           (ma this * me m + mc this * mf m + me this)
           (mb this * me m + md this * mf m + mf this)"

definition flattenTransforms :: "'a::{plus,times,zero,one} Matrix list \<Rightarrow> 'a Matrix" where
  "flattenTransforms matricies = reduce matricies (\<lambda>prev curr. dot curr prev) new_Matrix"

definition invert :: "'a::{times,minus,inverse} Matrix \<Rightarrow> 'a Matrix" where
  "invert m =
    Matrix (md m / (ma m * md m - mb m * mc m))
           (mb m / (mb m * mc m - ma m * md m))
           (mc m / (mb m * mc m - ma m * md m))
           (ma m / (ma m * md m - mb m * mc m))
           ((md m * me m - mc m * mf m) / (mb m * mc m - ma m * md m))
           ((mb m * me m - ma m * mf m) / (ma m * md m - mb m * mc m))"

definition getScale :: "double Matrix \<Rightarrow> double" where
  "getScale this =
    (let matrix = Matrix (ma this) (mb this) (mc this) (md this) 0 0;
         vecA = transform (Point 0 1) [matrix];
         vecB = transform (Point 1 0) [matrix];
         scaleX = Math_hypot (px vecA) (py vecA);
         scaleY = Math_hypot (px vecB) (py vecB);
         crossProduct = py vecA * px vecB - px vecA * py vecB;
         maxScale = Math_max scaleX scaleY
     in if maxScale > 0 then Math_abs crossProduct / maxScale else 0)"

text \<open>
  The value of a finite number in units of \<open>2\<^sup>-\<^sup>1\<^sup>0\<^sup>7\<^sup>4\<close>, the least positive number: an
  integer. \<open>scaled m e\<close> is \<open>m \<sqdot> 2\<^sup>e\<close> in these units.
\<close>

definition scaled :: "nat \<Rightarrow> int \<Rightarrow> nat" where
  "scaled m e = m * 2 ^ nat (e + 1074)"

definition ival :: "double \<Rightarrow> int" where
  "ival v = (case unpack v of UFin s m e \<Rightarrow> with_sign s (scaled m e) | _ \<Rightarrow> 0)"

text \<open>\<open>Number.MAX_VALUE\<close>, the largest finite number.\<close>

definition MAX_VALUE :: double where
  "MAX_VALUE = Double False 2046 0xFFFFFFFFFFFFF"

text \<open>A number that is not NaN and has its sign bit clear: \<open>+0\<close>, a positive number or \<open>+Infinity\<close>.\<close>

definition nonneg :: "double \<Rightarrow> bool" where
  "nonneg v \<longleftrightarrow> \<not> isNaN v \<and> \<not> sign v"

definition finite_point :: "double Point \<Rightarrow> bool" where
  "finite_point p \<longleftrightarrow> isFinite (px p) \<and> isFinite (py p)"

text \<open>Two points within a tolerance of each other, coordinate by coordinate.\<close>

definition within_tolerance :: "double \<Rightarrow> double Point \<Rightarrow> double Point \<Rightarrow> bool" where
  "within_tolerance tol p q \<longleftrightarrow> Math_abs (px p - px q) < tol \<and> Math_abs (py p - py q) < tol"

text \<open>
  Matrices are compared coefficient by coefficient; \<open>finite_matrix\<close> holds when no
  coefficient is an infinity or a NaN.
\<close>

definition coefficientwise :: "('a \<Rightarrow> 'a \<Rightarrow> bool) \<Rightarrow> 'a Matrix \<Rightarrow> 'a Matrix \<Rightarrow> bool" where
  "coefficientwise R A B \<longleftrightarrow>
    R (ma A) (ma B) \<and> R (mb A) (mb B) \<and> R (mc A) (mc B) \<and>
    R (md A) (md B) \<and> R (me A) (me B) \<and> R (mf A) (mf B)"

definition finite_matrix :: "double Matrix \<Rightarrow> bool" where
  "finite_matrix A \<longleftrightarrow>
    isFinite (ma A) \<and> isFinite (mb A) \<and> isFinite (mc A) \<and>
    isFinite (md A) \<and> isFinite (me A) \<and> isFinite (mf A)"

section \<open>Properties of the numbers and of the module's functions\<close>

subsection \<open>Fields and the unpacked view\<close>

lemma unat_expo_lt: "unat (expo v) < 2048"
  using unsigned_less [of "expo v", where 'a = nat] by simp

lemma unat_frac_lt: "unat (frac v) < 2 ^ 52"
  using unsigned_less [of "frac v", where 'a = nat] by simp

lemma unat_of_nat_expo: "n < 2048 \<Longrightarrow> unat (of_nat n :: 11 word) = n"
  by (simp add: unat_of_nat)

lemma unat_of_nat_frac: "n < 2 ^ 52 \<Longrightarrow> unat (of_nat n :: 52 word) = n"
  by (simp add: unat_of_nat)

lemma double_fields:
  obtains E F where "v = Double (sign v) (of_nat E) (of_nat F)" "E < 2048" "F < 2 ^ 52"
    "unat (expo v) = E" "unat (frac v) = F"
proof -
  have "v = Double (sign v) (of_nat (unat (expo v))) (of_nat (unat (frac v)))"
    by (cases v) simp
  then show thesis
    using that unat_expo_lt unat_frac_lt by blast
qed

lemma unpack_Double:
  "E < 2048 \<Longrightarrow> F < 2 ^ 52 \<Longrightarrow> unpack (Double s (of_nat E) (of_nat F)) = unpack_fields s E F"
  by (simp only: unpack_def double.sel unat_of_nat_expo unat_of_nat_frac)

lemma unpack_pack:
  assumes "unpack v = UFin s m e"
  shows "canonical m e" and "sign v = s" and "pack s m e = v"
proof -
  obtain E F where v: "v = Double (sign v) (of_nat E) (of_nat F)" and E: "E < 2048" and F: "F < 2 ^ 52"
    by (rule double_fields)
  from assms have u: "unpack_fields (sign v) E F = UFin s m e"
    using unpack_Double [OF E F, of "sign v"] v by simp
  then have E': "E \<noteq> 2047" and s: "sign v = s"
    and me: "(E = 0 \<and> m = F \<and> e = - 1074) \<or> (0 < E \<and> m = 2 ^ 52 + F \<and> e = int E - 1075)"
    by (auto simp: unpack_fields_def split: if_splits)
  show "sign v = s" by (fact s)
  show "canonical m e"
    using me E E' F by (auto simp: canonical_def)
  from me show "pack s m e = v"
  proof
    assume "E = 0 \<and> m = F \<and> e = - 1074"
    then have "pack s m e = Double s 0 (of_nat F)"
      using F by (simp add: pack_def)
    also have "\<dots> = v" using v s \<open>E = 0 \<and> m = F \<and> e = - 1074\<close> by simp
    finally show ?thesis .
  next
    assume a: "0 < E \<and> m = 2 ^ 52 + F \<and> e = int E - 1075"
    then have 1: "nat (e + 1075) = E" and 2: "m - 2 ^ 52 = F" and 3: "\<not> 971 < e" and 4: "\<not> m < 2 ^ 52"
      using E E' by auto
    have "pack s m e = Double s (of_nat (nat (e + 1075))) (of_nat (m - 2 ^ 52))"
      unfolding pack_def using 3 4 by (simp only: if_False)
    also have "\<dots> = v" unfolding 1 2 using v s by simp
    finally show ?thesis .
  qed
qed

lemma unpack_pack_canonical:
  assumes "canonical m e"
  shows "unpack (pack s m e) = UFin s m e"
proof (cases "m < 2 ^ 52")
  case True
  with assms have e: "e = - 1074" by (simp add: canonical_def)
  have "pack s m e = Double s (of_nat 0) (of_nat m)"
    using True e by (simp add: pack_def)
  then show ?thesis
    using unpack_Double [of 0 m s] True e by (simp add: unpack_fields_def)
next
  case False
  with assms have b: "m - 2 ^ 52 < 2 ^ 52" "nat (e + 1075) < 2048" "nat (e + 1075) \<noteq> 2047"
     "nat (e + 1075) \<noteq> 0" "\<not> 971 < e" "int (nat (e + 1075)) - 1075 = e" "2 ^ 52 + (m - 2 ^ 52) = m"
    by (auto simp: canonical_def)
  have "pack s m e = Double s (of_nat (nat (e + 1075))) (of_nat (m - 2 ^ 52))"
    unfolding pack_def using False b(5) by (simp only: if_False)
  then show ?thesis
    using unpack_Double [OF b(2) b(1), of s] b(3,4,6,7) by (simp only: unpack_fields_def if_False)
qed

subsection \<open>Bit lengths and rounding shifts\<close>

lemma bit_length_0: "bit_length 0 = 0" by (simp add: bit_length.simps)
lemma bit_length_Suc_0: "bit_length (Suc 0) = Suc 0" by (simp add: bit_length.simps)
lemma bit_length_Bit0: "bit_length (numeral (Num.Bit0 n)) = Suc (bit_length (numeral n))"
  by (subst bit_length.simps) (simp del: One_nat_def)
lemma bit_length_Bit1: "bit_length (numeral (Num.Bit1 n)) = Suc (bit_length (numeral n))"
  by (subst bit_length.simps) (simp del: One_nat_def)

lemma bit_length_upper: "n < 2 ^ bit_length n"
proof (induction n rule: bit_length.induct)
  case (1 n)
  show ?case
  proof (cases "n = 0")
    case True
    then show ?thesis by (simp add: bit_length_0)
  next
    case False
    with 1 have "n div 2 < 2 ^ bit_length (n div 2)" by simp
    then have "n < 2 * 2 ^ bit_length (n div 2)" by linarith
    with False show ?thesis by (subst bit_length.simps) simp
  qed
qed

lemma bit_length_lower: "0 < n \<Longrightarrow> 2 ^ bit_length n \<le> 2 * n"
proof (induction n rule: bit_length.induct)
  case (1 n)
  show ?case
  proof (cases "n div 2 = 0")
    case True
    with 1(2) have "n = 1" by linarith
    then show ?thesis by (simp add: bit_length_Suc_0)
  next
    case False
    with 1 have "2 ^ bit_length (n div 2) \<le> 2 * (n div 2)" by simp
    then have "2 * 2 ^ bit_length (n div 2) \<le> 2 * n" by linarith
    with 1(2) show ?thesis by (subst bit_length.simps) simp
  qed
qed

lemma bit_length_unique:
  assumes "0 < n" "2 ^ b \<le> 2 * n" "n < 2 ^ b"
  shows "bit_length n = b"
proof -
  have "(2::nat) ^ bit_length n < 2 ^ (b + 1)"
    using bit_length_lower [OF assms(1)] assms(3) by simp
  then have 1: "bit_length n < b + 1" by (simp only: power_strict_increasing_iff rel_simps)
  have "(2::nat) ^ b < 2 ^ (bit_length n + 1)"
    using bit_length_upper [of n] assms(2) by simp
  then have 2: "b < bit_length n + 1" by (simp only: power_strict_increasing_iff rel_simps)
  from 1 2 show ?thesis by simp
qed

lemma bit_length_mult_pow2: "0 < n \<Longrightarrow> bit_length (n * 2 ^ k) = bit_length n + k"
  using bit_length_upper [of n] bit_length_lower [of n]
  by (intro bit_length_unique) (simp_all add: power_add)

lemma bit_length_le_iff: "bit_length n \<le> b \<longleftrightarrow> n < 2 ^ b"
proof
  assume "bit_length n \<le> b"
  then have "(2::nat) ^ bit_length n \<le> 2 ^ b" by simp
  with bit_length_upper [of n] show "n < 2 ^ b" by linarith
next
  assume a: "n < 2 ^ b"
  show "bit_length n \<le> b"
  proof (cases "n = 0")
    case True then show ?thesis by (simp add: bit_length_0)
  next
    case False
    then have "(2::nat) ^ bit_length n < 2 ^ (b + 1)"
      using bit_length_lower [of n] a by simp
    then have "bit_length n < b + 1" by (simp only: power_strict_increasing_iff rel_simps)
    then show ?thesis by simp
  qed
qed

lemma rne_shift_0: "rne_shift n 0 = n"
  by (simp add: rne_shift_def rne_def)

lemma rne_shift_mult: "rne_shift (n * 2 ^ j) (k + j) = rne_shift n k"
proof -
  have d: "n * 2 ^ j div 2 ^ (k + j) = n div 2 ^ k"
    by (simp add: power_add)
  have m: "n * 2 ^ j mod 2 ^ (k + j) = (n mod 2 ^ k) * 2 ^ j"
    by (simp add: power_add mult_mod_left mult.commute)
  show ?thesis
    unfolding rne_shift_def rne_def d m by (simp add: power_add)
qed

lemma rne_shift_exact: "rne_shift (n * 2 ^ j) j = n"
  using rne_shift_mult [of n j 0] by (simp add: rne_shift_0)

subsection \<open>Rounding\<close>

lemma rne_shift_align:
  "rne_shift (n * 2 ^ j * 2 ^ nat (x - int j)) (nat (int j - x)) = rne_shift (n * 2 ^ nat x) (nat (- x))"
proof -
  consider "x \<le> 0" | "0 < x" "x \<le> int j" | "int j < x" by linarith
  then show ?thesis
  proof cases
    case 1
    then have "nat (int j - x) = nat (- x) + j" "nat (x - int j) = 0" "nat x = 0" by simp_all
    then show ?thesis by (simp add: rne_shift_mult)
  next
    case 2
    then have a: "nat (x - int j) = 0" "nat (- x) = 0" by simp_all
    from 2 have "j = nat x + nat (int j - x)" by simp
    then have "n * 2 ^ j = n * 2 ^ nat x * 2 ^ nat (int j - x)"
      by (metis mult.assoc power_add)
    then have "rne_shift (n * 2 ^ j) (nat (int j - x)) = n * 2 ^ nat x"
      by (simp only: rne_shift_exact)
    then show ?thesis by (simp add: a rne_shift_0)
  next
    case 3
    then have a: "nat (int j - x) = 0" "nat (- x) = 0" by simp_all
    from 3 have "nat x = j + nat (x - int j)" by simp
    then have "n * 2 ^ nat x = n * 2 ^ j * 2 ^ nat (x - int j)"
      by (metis mult.assoc power_add)
    then show ?thesis by (simp only: a rne_shift_0)
  qed
qed

lemma round_dyadic_scale: "round_dyadic s (n * 2 ^ j) (e - int j) = round_dyadic s n e"
proof (cases "n = 0")
  case True
  then show ?thesis by (simp add: round_dyadic_def)
next
  case False
  then have b: "bit_length (n * 2 ^ j) = bit_length n + j"
    by (simp add: bit_length_mult_pow2)
  define q where "q = max (e + int (bit_length n) - 53) (- 1074)"
  have q: "max (e - int j + int (bit_length (n * 2 ^ j)) - 53) (- 1074) = q"
    by (simp add: b q_def)
  have "rne_shift (n * 2 ^ j * 2 ^ nat (e - int j - q)) (nat (q - (e - int j)))
      = rne_shift (n * 2 ^ nat (e - q)) (nat (q - e))"
    using rne_shift_align [of n j "e - q"] by (simp add: algebra_simps)
  then have "round_at s (n * 2 ^ j) (e - int j) q = round_at s n e q"
    by (simp add: round_at_def)
  with False show ?thesis
    unfolding round_dyadic_def q q_def [symmetric] by simp
qed

lemma pack_Zero: "pack s 0 (- 1074) = Zero s"
  by (simp add: pack_def Zero_def)

lemma round_dyadic_canonical:
  assumes "canonical m e"
  shows "round_dyadic s m e = pack s m e"
proof (cases "m = 0")
  case True
  with assms have "e = - 1074" by (simp add: canonical_def)
  with True show ?thesis by (simp add: round_dyadic_def pack_Zero)
next
  case False
  have "max (e + int (bit_length m) - 53) (- 1074) = e"
  proof (cases "m < 2 ^ 52")
    case True
    then have "bit_length m \<le> 52" by (simp add: bit_length_le_iff)
    moreover from True assms have "e = - 1074" by (simp add: canonical_def)
    ultimately show ?thesis by simp
  next
    case False
    with assms \<open>m \<noteq> 0\<close> have "bit_length m = 53"
      by (intro bit_length_unique) (simp_all add: canonical_def)
    with assms show ?thesis by (simp add: canonical_def)
  qed
  moreover from assms have "m \<noteq> 2 ^ 53" by (simp add: canonical_def)
  ultimately show ?thesis
    using False by (simp add: round_dyadic_def round_at_def pack_carry_def rne_shift_0)
qed

lemma round_dyadic_unpack: "unpack v = UFin s m e \<Longrightarrow> round_dyadic s m e = v"
  using unpack_pack [of v s m e] by (simp add: round_dyadic_canonical)

lemma rne_shift_le: "n < c * 2 ^ k \<Longrightarrow> rne_shift n k \<le> c"
proof -
  assume "n < c * 2 ^ k"
  then have "n div 2 ^ k < c" by (simp add: less_mult_imp_div_less)
  then show ?thesis by (simp add: rne_shift_def rne_def)
qed

lemma rne_shift_ge: "c * 2 ^ k \<le> n \<Longrightarrow> c \<le> rne_shift n k"
proof -
  assume "c * 2 ^ k \<le> n"
  then have "c \<le> n div 2 ^ k" by (simp add: less_eq_div_iff_mult_less_eq)
  then show ?thesis by (simp add: rne_shift_def rne_def)
qed

text \<open>
  The steps of \<open>round_dyadic\<close> on a non-zero significand: the quantum exponent \<open>q\<close> and
  the rounded significand \<open>m\<close>, which has at most 53 bits before the carry is handled and
  at least 53 bits unless \<open>q\<close> is the least exponent.
\<close>

lemma round_dyadic_internal:
  fixes n :: nat and e :: int
  defines "q \<equiv> max (e + int (bit_length n) - 53) (- 1074)"
  defines "m \<equiv> rne_shift (n * 2 ^ nat (e - q)) (nat (q - e))"
  assumes "n \<noteq> 0"
  shows "round_dyadic s n e = pack_carry s m q" and "- 1074 \<le> q" and "m \<le> 2 ^ 53"
    and "q \<noteq> - 1074 \<Longrightarrow> 2 ^ 52 \<le> m" and "q \<le> e \<Longrightarrow> m = n * 2 ^ nat (e - q)"
proof -
  define b where "b = bit_length n"
  define N where "N = n * 2 ^ nat (e - q)"
  define k where "k = nat (q - e)"
  have m: "m = rne_shift N k" by (simp add: m_def N_def k_def)
  show "round_dyadic s n e = pack_carry s m q"
    using assms(3) by (simp add: round_dyadic_def round_at_def q_def m_def)
  have nb: "n < 2 ^ b" "2 ^ b \<le> 2 * n"
    using bit_length_upper [of n] bit_length_lower [of n] assms(3) by (simp_all add: b_def)
  have qge: "- 1074 \<le> q" "e + int b - 53 \<le> q" by (simp_all add: q_def b_def)
  show "- 1074 \<le> q" by (fact qge)
  have up: "N < 2 ^ 53 * 2 ^ k"
  proof -
    have "b + nat (e - q) \<le> 53 + k" using qge by (simp add: k_def)
    then have "(2::nat) ^ (b + nat (e - q)) \<le> 2 ^ (53 + k)" by simp
    moreover have "N < 2 ^ (b + nat (e - q))" using nb(1) by (simp add: N_def power_add)
    ultimately show ?thesis by (simp add: power_add)
  qed
  then show "m \<le> 2 ^ 53" unfolding m by (rule rne_shift_le)
  show "2 ^ 52 \<le> m" if "q \<noteq> - 1074"
  proof -
    from that have qe: "q = e + int b - 53" by (simp add: q_def b_def)
    have "b \<noteq> 0" using nb(1) assms(3) by (cases b) simp_all
    then have "52 + k + 1 = b + nat (e - q)" using qe by (simp add: k_def)
    then have "(2::nat) ^ 52 * 2 ^ k * 2 = 2 ^ b * 2 ^ nat (e - q)"
      by (metis power_add power_one_right)
    also have "\<dots> \<le> 2 * n * 2 ^ nat (e - q)" using nb(2) by simp
    finally have "2 ^ 52 * 2 ^ k \<le> N" by (simp add: N_def)
    then show ?thesis unfolding m by (rule rne_shift_ge)
  qed
  show "m = n * 2 ^ nat (e - q)" if "q \<le> e"
    using that by (simp add: m N_def k_def rne_shift_0)
qed

text \<open>
  The shape of every rounded result: an infinity, or the packing of a canonical pair,
  whose significand is positive when the value rounded is positive and the exponent is
  not below the least one.
\<close>

lemma round_dyadic_cases:
  obtains (Inf) "round_dyadic s n e = Infinity s"
  | (Fin) m' e' where "canonical m' e'" "round_dyadic s n e = pack s m' e'"
      "0 < n \<and> - 1074 \<le> e \<longrightarrow> 0 < m'"
proof (cases "n = 0")
  case True
  then have "round_dyadic s n e = pack s 0 (- 1074)" by (simp add: round_dyadic_def pack_Zero)
  moreover have "canonical 0 (- 1074)" by (simp add: canonical_def)
  ultimately show thesis using True by (intro Fin [of 0 "- 1074"]) simp_all
next
  case False
  define q where "q = max (e + int (bit_length n) - 53) (- 1074)"
  define m where "m = rne_shift (n * 2 ^ nat (e - q)) (nat (q - e))"
  note i = round_dyadic_internal [OF False, where e = e, folded q_def m_def]
  have pos: "0 < m" if "- 1074 \<le> e"
  proof (cases "q = - 1074")
    case True
    with that i(5) have "m = n * 2 ^ nat (e - q)" by simp
    with False show ?thesis by simp
  next
    case False
    then have "(2::nat) ^ 52 \<le> m" by (rule i(4))
    then show ?thesis by (simp add: less_le_trans [of 0 "2 ^ 52"])
  qed
  show thesis
  proof (cases "m = 2 ^ 53")
    case True
    then have p: "round_dyadic s n e = pack s (2 ^ 52) (q + 1)" by (simp add: i(1) pack_carry_def)
    show ?thesis
    proof (cases "971 < q + 1")
      case True
      with p show ?thesis by (intro Inf) (simp add: pack_def)
    next
      case False
      with i(2) have "canonical (2 ^ 52) (q + 1)" by (simp add: canonical_def)
      then show ?thesis using p by (rule Fin) simp
    qed
  next
    case ne: False
    then have p: "round_dyadic s n e = pack s m q" by (simp add: i(1) pack_carry_def)
    show ?thesis
    proof (cases "971 < q")
      case True
      with p show ?thesis by (intro Inf) (simp add: pack_def)
    next
      case q: False
      from ne i(3) have "m < 2 ^ 53" by simp
      with q i(2) i(4) have "canonical m q" by (auto simp: canonical_def)
      moreover have "0 < n \<and> - 1074 \<le> e \<longrightarrow> 0 < m" using pos by simp
      ultimately show ?thesis using p by (intro Fin [of m q])
    qed
  qed
qed

subsection \<open>Special values, and the identities of the operators\<close>

lemma unpack_NaN [simp]: "unpack NaN = UNaN"
  by (simp add: unpack_def unpack_fields_def NaN_def)

lemma unpack_Infinity [simp]: "unpack (Infinity s) = UInf s"
  by (simp add: unpack_def unpack_fields_def Infinity_def)

lemma unpack_Zero [simp]: "unpack (Zero s) = UFin s 0 (- 1074)"
  by (simp add: unpack_def unpack_fields_def Zero_def)

lemma unpack_zero [simp]: "unpack 0 = UFin False 0 (- 1074)"
  by (simp add: zero_double_def)

lemma unpack_one [simp]: "unpack 1 = UFin False (2 ^ 52) (- 52)"
  by (simp add: unpack_def unpack_fields_def one_double_def)

lemma isNaN_NaN [simp]: "isNaN NaN"
  by (simp add: isNaN_def NaN_def)

lemma unpack_eq_UNaN: "unpack v = UNaN \<longleftrightarrow> isNaN v"
proof -
  obtain E F where "E < 2048" "F < 2 ^ 52" "unat (expo v) = E" "unat (frac v) = F"
    by (rule double_fields)
  then show ?thesis
    by (auto simp: unpack_def unpack_fields_def isNaN_def word_unat_eq_iff [of "expo v"] 
        word_unat_eq_iff [of "frac v"])
qed

lemma unpack_eq_UInf: "unpack v = UInf s \<longleftrightarrow> v = Infinity s"
proof
  assume a: "unpack v = UInf s"
  then have "unat (expo v) = 2047" "unat (frac v) = 0" "sign v = s"
    by (auto simp: unpack_def unpack_fields_def split: if_splits)
  then have "expo v = 2047" "frac v = 0" "sign v = s"
    by (simp_all add: word_unat_eq_iff [of "expo v"] word_unat_eq_iff [of "frac v"])
  then show "v = Infinity s" by (cases v) (simp add: Infinity_def)
qed simp

lemma isFinite_iff: "isFinite v \<longleftrightarrow> (\<exists>s m e. unpack v = UFin s m e)"
  by (auto simp: isFinite_def unpack_def unpack_fields_def word_unat_eq_iff [of "expo v"])

lemma unpack_cases [case_names NaN Inf Fin]:
  obtains (NaN) "unpack v = UNaN" "isNaN v"
  | (Inf) s where "unpack v = UInf s" "v = Infinity s"
  | (Fin) s m e where "unpack v = UFin s m e" "canonical m e" "isFinite v" "sign v = s"
proof (cases "unpack v")
  case UNaN
  then show ?thesis using NaN by (simp add: unpack_eq_UNaN)
next
  case (UInf s)
  then show ?thesis using Inf by (simp add: unpack_eq_UInf)
next
  case (UFin s m e)
  then show ?thesis using Fin unpack_pack [of v s m e] isFinite_iff by blast
qed

lemma isFinite_not_NaN: "isFinite v \<Longrightarrow> \<not> isNaN v"
  by (simp add: isFinite_def isNaN_def)

lemma sign_Zero [simp]: "sign (Zero s) = s"
  by (simp add: Zero_def)

lemma sign_Infinity [simp]: "sign (Infinity s) = s"
  by (simp add: Infinity_def)

lemma isFinite_Zero [simp]: "isFinite (Zero s)"
  by (simp add: isFinite_def Zero_def)

lemma is_zero_iff: "is_zero v \<longleftrightarrow> v = Zero (sign v)"
  by (cases v) (auto simp: is_zero_def Zero_def)

lemma is_zero_Zero [simp]: "is_zero (Zero s)"
  by (simp add: is_zero_def Zero_def)

lemma unpack_is_zero: "is_zero v \<Longrightarrow> unpack v = UFin (sign v) 0 (- 1074)"
proof -
  assume "is_zero v"
  then have "v = Zero (sign v)" by (simp flip: is_zero_iff)
  then have "unpack v = unpack (Zero (sign v))" by (rule arg_cong)
  then show ?thesis by simp
qed

lemma unpack_Fin_zero: "unpack v = UFin s 0 e \<longleftrightarrow> v = Zero s \<and> e = - 1074"
proof
  assume a: "unpack v = UFin s 0 e"
  then have "canonical 0 e" "pack s 0 e = v" by (rule unpack_pack)+
  then show "v = Zero s \<and> e = - 1074" by (auto simp: canonical_def pack_Zero)
qed simp

lemma sign_pack [simp]: "sign (pack s m e) = s"
  by (simp add: pack_def Infinity_def)

lemma sign_round_dyadic [simp]: "sign (round_dyadic s n e) = s"
  by (simp add: round_dyadic_def round_at_def pack_carry_def Zero_def)

lemma not_NaN_round_dyadic [simp]: "\<not> isNaN (round_dyadic s n e)"
proof (rule round_dyadic_cases [of s n e])
  assume "round_dyadic s n e = Infinity s"
  then show ?thesis by (simp add: isNaN_def Infinity_def)
next
  fix m' :: nat and e' :: int
  assume "canonical m' e'" "round_dyadic s n e = pack s m' e'"
  then have "unpack (round_dyadic s n e) = UFin s m' e'" by (simp add: unpack_pack_canonical)
  then show ?thesis by (simp flip: unpack_eq_UNaN)
qed

lemma mul_one_right: "\<not> isNaN v \<Longrightarrow> v * 1 = v"
proof (cases v rule: unpack_cases)
  case (Fin s m e)
  have "v * 1 = round_dyadic s (m * 2 ^ 52) (e - int 52)"
    by (simp add: times_double_def Fin(1))
  also have "\<dots> = v" unfolding round_dyadic_scale using Fin(1) by (rule round_dyadic_unpack)
  finally show ?thesis .
qed (simp_all add: times_double_def)

lemma mul_one_left: "\<not> isNaN v \<Longrightarrow> 1 * v = v"
proof (cases v rule: unpack_cases)
  case (Fin s m e)
  have "1 * v = round_dyadic s (m * 2 ^ 52) (e - int 52)"
    by (simp add: times_double_def Fin(1) mult.commute)
  also have "\<dots> = v" unfolding round_dyadic_scale using Fin(1) by (rule round_dyadic_unpack)
  finally show ?thesis .
qed (simp_all add: times_double_def)

lemma mul_zero_right: "isFinite v \<Longrightarrow> v * 0 = Zero (sign v)"
  by (cases v rule: unpack_cases) (auto simp: times_double_def round_dyadic_def isFinite_def isNaN_def Infinity_def)

lemma mul_zero_left: "isFinite v \<Longrightarrow> 0 * v = Zero (sign v)"
  by (cases v rule: unpack_cases) (auto simp: times_double_def round_dyadic_def isFinite_def isNaN_def Infinity_def)

lemma add_Zero_right:
  "isFinite v \<Longrightarrow> v + Zero z = (if is_zero v then Zero (sign v \<and> z) else v)"
proof (cases v rule: unpack_cases)
  case (Fin s m e)
  show ?thesis
  proof (cases "m = 0")
    case True
    with Fin(1) have "v = Zero s" by (simp add: unpack_Fin_zero)
    then show ?thesis
      by (simp add: plus_double_def add_aligned_def common_exp_def round_signed_def with_sign_def)
  next
    case False
    have nz: "\<not> is_zero v"
    proof
      assume "is_zero v"
      then have "unpack v = UFin (sign v) 0 (- 1074)" by (rule unpack_is_zero)
      with Fin(1) False show False by simp
    qed
    have "v + Zero z = round_dyadic s m e"
      using False by (simp add: plus_double_def Fin(1) add_aligned_def common_exp_def round_signed_def with_sign_def)
    with nz Fin(1) show ?thesis by (simp add: round_dyadic_unpack)
  qed
qed (simp_all add: isFinite_def isNaN_def Infinity_def)

lemma add_Zero_left:
  "isFinite v \<Longrightarrow> Zero z + v = (if is_zero v then Zero (z \<and> sign v) else v)"
proof (cases v rule: unpack_cases)
  case (Fin s m e)
  show ?thesis
  proof (cases "m = 0")
    case True
    with Fin(1) have "v = Zero s" by (simp add: unpack_Fin_zero)
    then show ?thesis
      by (simp add: plus_double_def add_aligned_def common_exp_def round_signed_def with_sign_def)
  next
    case False
    have nz: "\<not> is_zero v"
    proof
      assume "is_zero v"
      then have "unpack v = UFin (sign v) 0 (- 1074)" by (rule unpack_is_zero)
      with Fin(1) False show False by simp
    qed
    have "Zero z + v = round_dyadic s m e"
      using False by (simp add: plus_double_def Fin(1) add_aligned_def common_exp_def round_signed_def with_sign_def)
    with nz Fin(1) show ?thesis by (simp add: round_dyadic_unpack)
  qed
qed (simp_all add: isFinite_def isNaN_def Infinity_def)

subsection \<open>The identity matrix\<close>

lemma strict_equal_refl: "\<not> isNaN v \<Longrightarrow> strict_equal v v"
  by (simp add: strict_equal_def)

lemma is_zero_finite: "is_zero v \<Longrightarrow> isFinite v"
  by (simp add: is_zero_def isFinite_def)

lemma isNaN_Zero [simp]: "\<not> isNaN (Zero s)"
  by (simp add: isNaN_def Zero_def)

lemma Zero_add_Zero [simp]: "Zero s + Zero t = Zero (s \<and> t)"
  by (simp add: add_Zero_right)

lemma strict_equal_add_Zero_right:
  assumes "strict_equal u v" "isFinite v"
  shows "strict_equal (u + Zero z) v"
proof -
  from assms have u: "isFinite u" by (auto simp: strict_equal_def is_zero_finite)
  show ?thesis
  proof (cases "is_zero u")
    case True
    with assms(1) have "is_zero v" by (auto simp: strict_equal_def)
    with True u assms show ?thesis by (simp add: add_Zero_right strict_equal_def)
  next
    case False
    with u assms show ?thesis by (simp add: add_Zero_right)
  qed
qed

lemma strict_equal_add_Zero_left:
  assumes "strict_equal u v" "isFinite v"
  shows "strict_equal (Zero z + u) v"
proof -
  from assms have u: "isFinite u" by (auto simp: strict_equal_def is_zero_finite)
  show ?thesis
  proof (cases "is_zero u")
    case True
    with assms(1) have "is_zero v" by (auto simp: strict_equal_def)
    with True u assms show ?thesis by (simp add: add_Zero_left strict_equal_def)
  next
    case False
    with u assms show ?thesis by (simp add: add_Zero_left)
  qed
qed

lemma strict_equal_add_0_right:
  "strict_equal u v \<Longrightarrow> isFinite v \<Longrightarrow> strict_equal (u + 0) v"
  unfolding zero_double_def by (rule strict_equal_add_Zero_right)

lemma dot_identity_right:
  assumes "finite_matrix M"
  shows "coefficientwise strict_equal (dot M new_Matrix) M"
  using assms
  by (simp add: coefficientwise_def finite_matrix_def dot_def new_Matrix_def
      mul_one_right mul_zero_right isFinite_not_NaN zero_double_def [symmetric]
      strict_equal_add_Zero_right strict_equal_add_Zero_left strict_equal_refl)

lemma dot_identity_left:
  assumes "finite_matrix M"
  shows "coefficientwise strict_equal (dot new_Matrix M) M"
  using assms
  by (simp add: coefficientwise_def finite_matrix_def dot_def new_Matrix_def
      mul_one_left mul_zero_left isFinite_not_NaN strict_equal_add_0_right
      strict_equal_add_Zero_right strict_equal_add_Zero_left strict_equal_refl)

subsection \<open>Evaluation of closed terms\<close>

text \<open>
  The equations that evaluate the operations on numerals, and the definitions of the
  module, which are unfolded first.
\<close>

lemmas number_eval =
  unpack_def unpack_fields_def round_dyadic_def round_at_def pack_carry_def pack_def
  round_ratio_def jam_round_def rne_shift_def rne_def
  bit_length_0 bit_length_Suc_0 bit_length_Bit0 bit_length_Bit1
  with_sign_def common_exp_def of_decimal_def pow2_def
  round_signed_def add_aligned_def rem_aligned_def lt_aligned_def le_aligned_def
  zero_double_def one_double_def plus_double_def minus_double_def times_double_def
  divide_double_def modulo_double_def abs_double_def less_double_def less_eq_double_def
  uminus_double_def negate_def MAX_VALUE_def NaN_def Infinity_def Zero_def isNaN_def isFinite_def is_zero_def
  strict_equal_def same_value_zero_def nonneg_def Math_abs_def Math_max_def
  isqrt_def isqrt_bits.simps isqrt_step_def sqrt_dyadic_def sqrt_scaled_def sqrt_even_def
  sqrt_jam_def hypot_aligned_def Math_sqrt_def Math_hypot_def Math_pow2_def

lemma of_decimal_1em8: "of_decimal 1 (- 8) = Double False 996 0x5798EE2308C3A"
  by (simp add: number_eval)

lemmas module_eval =
  transform_def dot_def invert_def new_Matrix_def flattenTransforms_def getScale_def
  distance_def floorMod_def equals_def areCollinear_def coefficientwise_def finite_matrix_def
  finite_point_def within_tolerance_def
  Let_def reduce.simps every.simps Point.sel Matrix.sel of_decimal_1em8

subsection \<open>Composition with the identity, and \<open>flattenTransforms\<close>\<close>

lemma same_value_zero_refl [simp]: "same_value_zero v v"
  by (simp add: same_value_zero_def)

lemma same_value_zero_trans:
  "same_value_zero u v \<Longrightarrow> same_value_zero v w \<Longrightarrow> same_value_zero u w"
  by (auto simp: same_value_zero_def is_zero_def isNaN_def)

lemma strict_equal_same_value_zero: "strict_equal u v \<Longrightarrow> same_value_zero u v"
  by (auto simp: same_value_zero_def strict_equal_def)

lemma mul_NaN_right: "isNaN u \<Longrightarrow> v * u = NaN"
  by (cases "unpack v") (simp_all add: times_double_def flip: unpack_eq_UNaN)

lemma add_NaN_right: "isNaN u \<Longrightarrow> v + u = NaN"
  by (cases "unpack v") (simp_all add: plus_double_def flip: unpack_eq_UNaN)

lemma add_NaN_left: "isNaN u \<Longrightarrow> u + v = NaN"
  by (simp add: plus_double_def flip: unpack_eq_UNaN)

lemma mul_is_zero_right:
  assumes "is_zero u"
  shows "v * u = (if isFinite v then Zero (sign v \<noteq> sign u) else NaN)"
proof (cases v rule: unpack_cases)
  case (Fin s m e)
  then show ?thesis
    using unpack_is_zero [OF assms] by (simp add: times_double_def round_dyadic_def)
qed (simp_all add: times_double_def unpack_is_zero [OF assms] isFinite_def isNaN_def Infinity_def)

lemma mul_same_value_zero_right:
  assumes "same_value_zero u u'"
  shows "same_value_zero (v * u) (v * u')"
  using assms unfolding same_value_zero_def
proof (elim disjE conjE)
  assume "isNaN u" "isNaN u'"
  then show "(isNaN (v * u) \<and> isNaN (v * u')) \<or> v * u = v * u' \<or> (is_zero (v * u) \<and> is_zero (v * u'))"
    by (simp add: mul_NaN_right)
next
  assume "is_zero u" "is_zero u'"
  then show "(isNaN (v * u) \<and> isNaN (v * u')) \<or> v * u = v * u' \<or> (is_zero (v * u) \<and> is_zero (v * u'))"
    by (simp add: mul_is_zero_right)
qed simp

lemma add_is_zero_left:
  assumes "is_zero u"
  shows "u + v = (if isNaN v then NaN else if is_zero v then Zero (sign u \<and> sign v) else v)"
proof -
  from assms have u: "u = Zero (sign u)" by (simp flip: is_zero_iff)
  show ?thesis
  proof (cases v rule: unpack_cases)
    case NaN
    then show ?thesis by (simp add: add_NaN_right)
  next
    case (Inf s)
    then have "u + v = v" by (subst u) (simp add: plus_double_def)
    with Inf show ?thesis by (simp add: isNaN_def is_zero_def Infinity_def)
  next
    case (Fin s m e)
    then have "u + v = (if is_zero v then Zero (sign u \<and> sign v) else v)"
      by (subst u) (simp add: add_Zero_left)
    with Fin show ?thesis by (simp add: isFinite_not_NaN)
  qed
qed

lemma add_is_zero_right:
  assumes "is_zero u"
  shows "v + u = (if isNaN v then NaN else if is_zero v then Zero (sign v \<and> sign u) else v)"
proof -
  from assms have u: "u = Zero (sign u)" by (simp flip: is_zero_iff)
  show ?thesis
  proof (cases v rule: unpack_cases)
    case NaN
    then show ?thesis by (simp add: add_NaN_left)
  next
    case (Inf s)
    then have "v + u = v" by (subst u) (simp add: plus_double_def)
    with Inf show ?thesis by (simp add: isNaN_def is_zero_def Infinity_def)
  next
    case (Fin s m e)
    then have "v + u = (if is_zero v then Zero (sign v \<and> sign u) else v)"
      by (subst u) (simp add: add_Zero_right)
    with Fin show ?thesis by (simp add: isFinite_not_NaN)
  qed
qed

lemma add_same_value_zero_left:
  assumes "same_value_zero u u'"
  shows "same_value_zero (u + v) (u' + v)"
  using assms unfolding same_value_zero_def
proof (elim disjE conjE)
  assume "isNaN u" "isNaN u'"
  then show "(isNaN (u + v) \<and> isNaN (u' + v)) \<or> u + v = u' + v \<or> (is_zero (u + v) \<and> is_zero (u' + v))"
    by (simp add: add_NaN_left)
next
  assume "is_zero u" "is_zero u'"
  then show "(isNaN (u + v) \<and> isNaN (u' + v)) \<or> u + v = u' + v \<or> (is_zero (u + v) \<and> is_zero (u' + v))"
    by (simp add: add_is_zero_left)
qed simp

lemma add_same_value_zero_right:
  assumes "same_value_zero u u'"
  shows "same_value_zero (v + u) (v + u')"
  using assms unfolding same_value_zero_def
proof (elim disjE conjE)
  assume "isNaN u" "isNaN u'"
  then show "(isNaN (v + u) \<and> isNaN (v + u')) \<or> v + u = v + u' \<or> (is_zero (v + u) \<and> is_zero (v + u'))"
    by (simp add: add_NaN_right)
next
  assume "is_zero u" "is_zero u'"
  then show "(isNaN (v + u) \<and> isNaN (v + u')) \<or> v + u = v + u' \<or> (is_zero (v + u) \<and> is_zero (v + u'))"
    by (simp add: add_is_zero_right)
qed simp

lemma add_same_value_zero:
  "same_value_zero u u' \<Longrightarrow> same_value_zero v v' \<Longrightarrow> same_value_zero (u + v) (u' + v')"
  by (blast intro: same_value_zero_trans add_same_value_zero_left add_same_value_zero_right)

lemma dot_same_value_zero:
  assumes "coefficientwise same_value_zero A' A"
  shows "coefficientwise same_value_zero (dot B A') (dot B A)"
  using assms
  by (simp add: coefficientwise_def dot_def add_same_value_zero mul_same_value_zero_right)

subsection \<open>\<open>Point.equals\<close>\<close>

lemma unpack_negate:
  "unpack (negate v) =
    (case unpack v of UNaN \<Rightarrow> UNaN | UInf s \<Rightarrow> UInf (\<not> s) | UFin s m e \<Rightarrow> UFin (\<not> s) m e)"
  by (simp add: unpack_def unpack_fields_def negate_def)

lemma abs_pack: "\<bar>pack s m q\<bar> = pack False m q"
  by (simp add: abs_double_def pack_def Infinity_def)

lemma abs_round_dyadic: "\<bar>round_dyadic s n e\<bar> = round_dyadic False n e"
  by (simp add: round_dyadic_def round_at_def pack_carry_def abs_pack) (simp add: abs_double_def Zero_def)

lemma abs_Zero [simp]: "\<bar>Zero s\<bar> = Zero False"
  by (simp add: abs_double_def Zero_def)

lemma abs_Infinity [simp]: "\<bar>Infinity s\<bar> = Infinity False"
  by (simp add: abs_double_def Infinity_def)

lemma abs_round_signed: "\<bar>round_signed z i l\<bar> = round_signed False \<bar>i\<bar> l"
  by (simp add: round_signed_def abs_round_dyadic)

lemma common_exp_commute:
  "canonical m e \<Longrightarrow> canonical n k \<Longrightarrow> common_exp n k m e = common_exp m e n k"
  by (auto simp: common_exp_def canonical_def)

lemma with_sign_Not: "with_sign (\<not> s) n = - with_sign s n"
  by (simp add: with_sign_def)

lemma abs_minus_commute_double: "\<bar>u - v\<bar> = \<bar>v - u :: double\<bar>"
proof (cases u rule: unpack_cases)
  case NaN
  then show ?thesis
    by (cases "unpack v") (simp_all add: minus_double_def unpack_negate)
next
  case u: (Inf s)
  show ?thesis
  proof (cases v rule: unpack_cases)
    case (Inf t)
    then show ?thesis using u by (auto simp: minus_double_def unpack_negate)
  qed (simp_all add: minus_double_def unpack_negate u)
next
  case u: (Fin s m e)
  show ?thesis
  proof (cases v rule: unpack_cases)
    case (Fin t n k)
    have "\<bar>with_sign t (n * 2 ^ nat (k - common_exp m e n k)) + with_sign (\<not> s) (m * 2 ^ nat (e - common_exp m e n k))\<bar>
        = \<bar>with_sign s (m * 2 ^ nat (e - common_exp m e n k)) + with_sign (\<not> t) (n * 2 ^ nat (k - common_exp m e n k))\<bar>"
      by (simp add: with_sign_Not)
    then show ?thesis
      using u(2) Fin(2)
      by (simp add: minus_double_def unpack_negate u(1) Fin(1) add_aligned_def abs_round_signed
          common_exp_commute)
  qed (simp_all add: minus_double_def unpack_negate u)
qed

lemma sub_self: "v - v = (if isFinite v then Zero False else NaN)"
proof (cases v rule: unpack_cases)
  case (Fin s m e)
  then show ?thesis
    by (simp add: minus_double_def unpack_negate add_aligned_def round_signed_def with_sign_Not)
qed (simp_all add: minus_double_def unpack_negate isFinite_def isNaN_def Infinity_def)

lemma unpack_1em8: "unpack (of_decimal 1 (- 8)) = UFin False 0x15798EE2308C3A (- 79)"
  by (simp add: number_eval)

lemma Zero_less_1em8: "\<bar>Zero False\<bar> < of_decimal 1 (- 8)"
  by (simp add: less_double_def unpack_1em8 lt_aligned_def common_exp_def with_sign_def)

lemma NaN_not_less: "\<not> \<bar>NaN\<bar> < v"
  by (simp add: less_double_def abs_double_def NaN_def unpack_def unpack_fields_def)

lemma equals_sym: "equals p q = equals q p"
  by (simp add: equals_def Math_abs_def abs_minus_commute_double [of "px p"]
      abs_minus_commute_double [of "py p"])

lemma equals_refl_iff: "equals p p \<longleftrightarrow> isFinite (px p) \<and> isFinite (py p)"
  by (simp add: equals_def Math_abs_def sub_self Zero_less_1em8 NaN_not_less del: abs_Zero)

subsection \<open>Signs, and \<open>distance\<close>\<close>

lemma round_dyadic_nonneg [simp]: "nonneg (round_dyadic False n e)"
  by (simp add: nonneg_def)

lemma nonneg_Zero [simp]: "nonneg (Zero False)"
  by (simp add: nonneg_def)

lemma nonneg_Infinity [simp]: "nonneg (Infinity False)"
  by (simp add: nonneg_def isNaN_def Infinity_def)

lemma not_nonneg_NaN [simp]: "\<not> nonneg NaN"
  by (simp add: nonneg_def)

lemma nonneg_cases:
  assumes "nonneg v"
  obtains (Inf) "unpack v = UInf False" | (Fin) m e where "unpack v = UFin False m e"
  using assms by (cases v rule: unpack_cases) (auto simp: nonneg_def)

lemma less_zero_iff: "v < 0 \<longleftrightarrow> sign v \<and> \<not> isNaN v \<and> \<not> is_zero v"
proof (cases v rule: unpack_cases)
  case (Fin s m e)
  have "is_zero v \<longleftrightarrow> m = 0"
    using Fin(1) unpack_is_zero [of v] unpack_Fin_zero [of v s e] by (auto simp: is_zero_iff)
  with Fin show ?thesis
    by (auto simp: less_double_def lt_aligned_def common_exp_def with_sign_def isFinite_not_NaN)
qed (auto simp: less_double_def isNaN_def is_zero_def Infinity_def)

lemma zero_le_iff: "0 \<le> v \<longleftrightarrow> \<not> isNaN v \<and> (\<not> sign v \<or> is_zero v)"
proof (cases v rule: unpack_cases)
  case (Fin s m e)
  have "is_zero v \<longleftrightarrow> m = 0"
    using Fin(1) unpack_is_zero [of v] unpack_Fin_zero [of v s e] by (auto simp: is_zero_iff)
  with Fin show ?thesis
    by (auto simp: less_eq_double_def le_aligned_def common_exp_def with_sign_def isFinite_not_NaN)
qed (auto simp: less_eq_double_def isNaN_def is_zero_def Infinity_def)

lemma nonneg_zero_le: "nonneg v \<Longrightarrow> 0 \<le> v"
  by (simp add: zero_le_iff nonneg_def)

lemma nonneg_mul_self: "\<not> isNaN v \<Longrightarrow> nonneg (v * v)"
  by (cases v rule: unpack_cases) (simp_all add: times_double_def)

lemma nonneg_add: "nonneg u \<Longrightarrow> nonneg v \<Longrightarrow> nonneg (u + v)"
proof (elim nonneg_cases)
  fix m e n k
  assume a: "unpack u = UFin False m e" "unpack v = UFin False n k"
  define i where "i = with_sign False (m * 2 ^ nat (e - common_exp m e n k))
      + with_sign False (n * 2 ^ nat (k - common_exp m e n k))"
  have "0 \<le> with_sign False j" for j by (simp add: with_sign_def)
  then have "0 \<le> i" unfolding i_def by (intro add_nonneg_nonneg)
  then have "\<not> i < 0" by simp
  then have "nonneg (round_signed False i (common_exp m e n k))"
    by (simp add: round_signed_def)
  then show ?thesis
    by (simp add: plus_double_def a add_aligned_def i_def)
qed (simp_all add: plus_double_def)

lemma sqrt_dyadic_nonneg [simp]: "nonneg (sqrt_dyadic n e)"
  by (simp add: sqrt_dyadic_def sqrt_scaled_def sqrt_even_def sqrt_jam_def)

lemma nonneg_sqrt: "nonneg u \<Longrightarrow> nonneg (Math_sqrt u)"
  by (erule nonneg_cases) (simp_all add: Math_sqrt_def)

lemma sqrt_not_less_zero: "\<not> Math_sqrt u < 0"
proof (cases "unpack u")
  case (UFin s m e)
  have "\<not> sqrt_dyadic m e < 0"
    using sqrt_dyadic_nonneg [of m e] by (simp add: less_zero_iff nonneg_def)
  with UFin show ?thesis by (simp add: Math_sqrt_def less_zero_iff)
qed (simp_all add: Math_sqrt_def less_zero_iff)

lemma not_NaN_round_signed [simp]: "\<not> isNaN (round_signed z i l)"
  by (simp add: round_signed_def)

lemma sub_finite_not_NaN: "isFinite u \<Longrightarrow> isFinite v \<Longrightarrow> \<not> isNaN (u - v)"
  by (auto simp: isFinite_iff minus_double_def unpack_negate add_aligned_def)

lemma distance_nonneg:
  assumes "finite_point p1" "finite_point p2"
  shows "nonneg (distance p1 p2)"
  using assms
  by (simp add: distance_def Math_pow2_def finite_point_def nonneg_sqrt nonneg_add nonneg_mul_self
      sub_finite_not_NaN)

lemma is_zero_unpack_iff: "is_zero v \<longleftrightarrow> (\<exists>s. unpack v = UFin s 0 (- 1074))"
  using unpack_is_zero [of v] unpack_Fin_zero [of v] by auto

lemma round_dyadic_nonzero:
  assumes "0 < n" "- 1074 \<le> e"
  shows "\<not> is_zero (round_dyadic s n e)"
proof (rule round_dyadic_cases [of s n e])
  assume "round_dyadic s n e = Infinity s"
  then show ?thesis by (simp add: is_zero_def Infinity_def)
next
  fix m' :: nat and e' :: int
  assume a: "canonical m' e'" "round_dyadic s n e = pack s m' e'" "0 < n \<and> - 1074 \<le> e \<longrightarrow> 0 < m'"
  then have "unpack (round_dyadic s n e) = UFin s m' e'" by (simp add: unpack_pack_canonical)
  with a(3) assms show ?thesis by (simp add: is_zero_unpack_iff)
qed

lemma mul_self_shape: "isNaN (v * v) \<or> nonneg (v * v)"
  using nonneg_mul_self [of v] by (cases "isNaN v") (simp_all add: mul_NaN_right)

lemma Zero_neq_NaN [simp]: "Zero s \<noteq> NaN" "Zero s \<noteq> Infinity t" "NaN \<noteq> Zero s" "Infinity t \<noteq> Zero s"
  by (simp_all add: Zero_def NaN_def Infinity_def)

lemma Zero_eq_iff [simp]: "Zero s = Zero t \<longleftrightarrow> s = t"
  by (simp add: Zero_def)

lemma isNaN_neq_Zero: "isNaN u \<Longrightarrow> u \<noteq> Zero s"
  by auto

lemma add_nonneg_eq_0_iff:
  assumes "isNaN u \<or> nonneg u" "isNaN v \<or> nonneg v"
  shows "u + v = 0 \<longleftrightarrow> u = 0 \<and> v = 0"
proof -
  consider "isNaN u" | "isNaN v" | "nonneg u" "nonneg v" using assms by blast
  then show ?thesis
  proof cases
    case 1
    then show ?thesis by (simp add: add_NaN_left zero_double_def isNaN_neq_Zero)
  next
    case 2
    then show ?thesis by (simp add: add_NaN_right zero_double_def isNaN_neq_Zero)
  next
    case 3
    from 3(1) show ?thesis
    proof (cases rule: nonneg_cases)
      case Inf
      from 3(2) show ?thesis
        using Inf by (cases rule: nonneg_cases) (auto simp: plus_double_def zero_double_def unpack_eq_UInf)
    next
      case u: (Fin m e)
      from 3(2) show ?thesis
      proof (cases rule: nonneg_cases)
        case Inf
        then show ?thesis using u by (auto simp: plus_double_def zero_double_def unpack_eq_UInf)
      next
        case v: (Fin n k)
        define l where "l = common_exp m e n k"
        define i where "i = with_sign False (m * 2 ^ nat (e - l)) + with_sign False (n * 2 ^ nat (k - l))"
        have l: "- 1074 \<le> l"
          using unpack_pack(1) [OF u] unpack_pack(1) [OF v] by (auto simp: l_def common_exp_def canonical_def)
        have i0: "i = 0 \<longleftrightarrow> m = 0 \<and> n = 0" by (auto simp: i_def with_sign_def add_nonneg_eq_0_iff)
        have sum: "u + v = round_signed False i l"
          by (simp add: plus_double_def u v add_aligned_def i_def l_def)
        have uz: "u = 0 \<longleftrightarrow> m = 0" and vz: "v = 0 \<longleftrightarrow> n = 0"
          using u v unpack_Fin_zero [of u False e] unpack_Fin_zero [of v False k]
            unpack_pack(1) [OF u] unpack_pack(1) [OF v]
          by (auto simp: zero_double_def canonical_def)
        show ?thesis
        proof (cases "i = 0")
          case True
          with sum i0 uz vz show ?thesis by (simp add: round_signed_def zero_double_def)
        next
          case False
          then have "0 < nat \<bar>i\<bar>" by simp
          then have "\<not> is_zero (round_dyadic (i < 0) (nat \<bar>i\<bar>) l)"
            using l by (rule round_dyadic_nonzero)
          then have "u + v \<noteq> 0"
            using False by (auto simp: sum round_signed_def zero_double_def)
          with False i0 uz vz show ?thesis by simp
        qed
      qed
    qed
  qed
qed

lemma sqrt_dyadic_nonzero:
  assumes "0 < n" "- 1074 \<le> e"
  shows "\<not> is_zero (sqrt_dyadic n e)"
proof -
  have *: "\<not> is_zero (sqrt_even n' e')" if "0 < n'" "- 1300 \<le> e'" for n' e'
  proof -
    have "0 < 2 * isqrt n' + (if isqrt n' * isqrt n' = n' then 0 else 1)"
      using that(1) by (cases "isqrt n' = 0") auto
    moreover have "- 1074 \<le> e' div 2 - 1" using that(2) by linarith
    ultimately show ?thesis unfolding sqrt_even_def sqrt_jam_def by (rule round_dyadic_nonzero)
  qed
  define j where "j = 56 - bit_length n div 2"
  have "j \<le> 56" by (simp add: j_def)
  then have e: "- 1200 \<le> e - 2 * int j" using assms(2) by linarith
  have n: "0 < n * 2 ^ (2 * j)" using assms(1) by simp
  have "\<not> is_zero (sqrt_scaled (n * 2 ^ (2 * j)) (e - 2 * int j))"
  proof (cases "odd (e - 2 * int j)")
    case True
    have "\<not> is_zero (sqrt_even (2 * (n * 2 ^ (2 * j))) (e - 2 * int j - 1))"
      using n e by (intro *) simp_all
    with True show ?thesis by (simp add: sqrt_scaled_def)
  next
    case False
    have "\<not> is_zero (sqrt_even (n * 2 ^ (2 * j)) (e - 2 * int j))"
      using n e by (intro *) simp_all
    with False show ?thesis by (simp add: sqrt_scaled_def)
  qed
  with assms(1) show ?thesis by (simp add: sqrt_dyadic_def j_def)
qed

lemma sqrt_eq_0_iff: "Math_sqrt u = 0 \<longleftrightarrow> u = 0"
proof (cases u rule: unpack_cases)
  case (Fin s m e)
  show ?thesis
  proof (cases "m = 0")
    case True
    with Fin(1) have "u = Zero s" by (simp add: unpack_Fin_zero)
    then show ?thesis by (simp add: Math_sqrt_def zero_double_def)
  next
    case False
    then have "\<not> is_zero (sqrt_dyadic m e)"
      using Fin(2) by (intro sqrt_dyadic_nonzero) (simp_all add: canonical_def)
    then have "sqrt_dyadic m e \<noteq> 0" by (auto simp: zero_double_def)
    moreover have "u \<noteq> 0" using Fin(1) False by (auto simp: zero_double_def)
    ultimately show ?thesis using Fin(1) False by (simp add: Math_sqrt_def zero_double_def)
  qed
qed (auto simp: Math_sqrt_def zero_double_def isNaN_def)

lemma distance_eq_0_iff:
  "distance p1 p2 = 0 \<longleftrightarrow> Math_pow2 (px p2 - px p1) = 0 \<and> Math_pow2 (py p2 - py p1) = 0"
  by (simp add: distance_def sqrt_eq_0_iff Math_pow2_def add_nonneg_eq_0_iff mul_self_shape)

lemma sub_strict_equal_is_zero:
  assumes "strict_equal u v" "isFinite u"
  shows "is_zero (v - u)"
proof -
  from assms(1) consider "u = v" | "is_zero u" "is_zero v" by (auto simp: strict_equal_def)
  then show ?thesis
  proof cases
    case 1
    with assms(2) show ?thesis by (simp add: sub_self)
  next
    case 2
    then show ?thesis
      using unpack_is_zero [of u] unpack_is_zero [of v]
      by (simp add: minus_double_def unpack_negate add_aligned_def round_signed_def with_sign_def
          common_exp_def)
  qed
qed

lemma pow2_is_zero: "is_zero v \<Longrightarrow> Math_pow2 v = 0"
  by (simp add: Math_pow2_def mul_is_zero_right is_zero_finite zero_double_def)

lemma distance_coincide:
  assumes "finite_point p1" "strict_equal (px p1) (px p2)" "strict_equal (py p1) (py p2)"
  shows "distance p1 p2 = 0"
  using assms by (simp add: distance_eq_0_iff finite_point_def sub_strict_equal_is_zero pow2_is_zero)

lemma invert_round_trip_real:
  fixes M :: "real Matrix" and p :: "real Point"
  assumes "ma M * md M - mb M * mc M \<noteq> 0"
  shows "transform p [M, invert M] = p"
proof -
  obtain a b c d e f where M: "M = Matrix a b c d e f" by (cases M)
  obtain u v where p: "p = Point u v" by (cases p)
  define D where "D = a * d - b * c"
  from assms have D: "D \<noteq> 0" by (simp add: M D_def)
  have n: "b * c - a * d = - D" by (simp add: D_def)
  have kx: "d * (a * u + c * v + e) - c * (b * u + d * v + f) - (d * e - c * f) = u * D"
    by (simp add: D_def algebra_simps)
  have ky: "a * (b * u + d * v + f) - b * (a * u + c * v + e) + (b * e - a * f) = v * D"
    by (simp add: D_def algebra_simps)
  have "d / D * (a * u + c * v + e) + c / (- D) * (b * u + d * v + f) + (d * e - c * f) / (- D)
      = (d * (a * u + c * v + e) - c * (b * u + d * v + f) - (d * e - c * f)) / D"
    by (simp add: diff_divide_distrib)
  also have "\<dots> = u" using D by (simp add: kx)
  finally have x: "d / D * (a * u + c * v + e) + c / (- D) * (b * u + d * v + f) + (d * e - c * f) / (- D) = u" .
  have "b / (- D) * (a * u + c * v + e) + a / D * (b * u + d * v + f) + (b * e - a * f) / D
      = (a * (b * u + d * v + f) - b * (a * u + c * v + e) + (b * e - a * f)) / D"
    by (simp add: diff_divide_distrib add_divide_distrib)
  also have "\<dots> = v" using D by (simp add: ky)
  finally have y: "b / (- D) * (a * u + c * v + e) + a / D * (b * u + d * v + f) + (b * e - a * f) / D = v" .
  show ?thesis
    unfolding M p transform_def invert_def reduce.simps Matrix.sel Point.sel n D_def [symmetric]
    using x y by simp
qed

lemma distance_not_less_zero: "\<not> distance p1 p2 < 0"
  by (simp add: distance_def sqrt_not_less_zero)

subsection \<open>\<open>areCollinear\<close>\<close>

lemma every_iff: "every vs P \<longleftrightarrow> (\<forall>v \<in> set vs. P v)"
  by (induction vs) simp_all

subsection \<open>Folds\<close>

lemma reduce_foldl: "reduce vs f acc = foldl f acc vs"
  by (induction vs arbitrary: acc) simp_all

section \<open>The claims\<close>

subsection \<open>\<open>flattenTransforms\<close> and \<open>transform\<close>\<close>

text \<open>
  C1, as the code has it: \<open>flattenTransforms\<close> is the left fold of \<open>curr.dot(prev)\<close> from
  the identity, so the empty list gives the identity and \<open>[A, B]\<close> gives
  \<open>B.dot(A.dot(new Matrix()))\<close>. When the coefficients of \<open>A\<close> are finite this agrees with
  \<open>B.dot(A)\<close> coefficient for coefficient (up to the sign of a zero, NaN matching NaN); in
  exact arithmetic the two are the same matrix.
\<close>

theorem flattenTransforms_fold:
  "flattenTransforms ms = foldl (\<lambda>prev curr. dot curr prev) new_Matrix ms
   \<and> flattenTransforms [] = (new_Matrix :: double Matrix)
   \<and> flattenTransforms [A, B] = dot B (dot A new_Matrix)
   \<and> (finite_matrix A \<longrightarrow>
        coefficientwise same_value_zero (flattenTransforms [A, B]) (dot B A))
   \<and> flattenTransforms [A', B'] = dot B' (A' :: real Matrix)"
proof -
  have "coefficientwise same_value_zero (dot B (dot A new_Matrix)) (dot B A)" if "finite_matrix A"
  proof -
    from that have "coefficientwise strict_equal (dot A new_Matrix) A"
      by (rule dot_identity_right)
    then have "coefficientwise same_value_zero (dot A new_Matrix) A"
      by (simp add: coefficientwise_def strict_equal_same_value_zero)
    then show ?thesis by (rule dot_same_value_zero)
  qed
  moreover have "flattenTransforms [A', B'] = dot B' A'"
    by (cases A') (simp add: flattenTransforms_def dot_def new_Matrix_def)
  ultimately show ?thesis
    by (simp add: flattenTransforms_def reduce_foldl)
qed

theorem flattenTransforms_fold_witness:
  "finite_matrix (Matrix (of_decimal 2 0) 0 0 (of_decimal 3 0) (of_decimal 5 0) (of_decimal 7 0))
   \<and> coefficientwise same_value_zero
        (flattenTransforms
          [Matrix (of_decimal 2 0) 0 0 (of_decimal 3 0) (of_decimal 5 0) (of_decimal 7 0),
           Matrix 0 1 1 0 0 0])
        (dot (Matrix 0 1 1 0 0 0)
          (Matrix (of_decimal 2 0) 0 0 (of_decimal 3 0) (of_decimal 5 0) (of_decimal 7 0)))"
proof -
  have h: "finite_matrix (Matrix (of_decimal 2 0) 0 0 (of_decimal 3 0) (of_decimal 5 0) (of_decimal 7 0))"
    unfolding finite_matrix_def Matrix.sel by (simp add: number_eval)
  from flattenTransforms_fold
    [of "[]" "Matrix (of_decimal 2 0) 0 0 (of_decimal 3 0) (of_decimal 5 0) (of_decimal 7 0)"
      "Matrix 0 1 1 0 0 0"] h
  show ?thesis by blast
qed

text \<open>
  The claim as stated, for all matrices, fails where a coefficient of \<open>A\<close> is infinite:
  \<open>A.dot(new Matrix())\<close> then has NaN coefficients that \<open>A\<close> has not.
\<close>

theorem flattenTransforms_pair_counterexample:
  "isNaN (ma (flattenTransforms [Matrix 1 0 (Infinity False) 1 0 0, new_Matrix]))
   \<and> ma (dot new_Matrix (Matrix 1 0 (Infinity False) 1 0 0)) = (1 :: double)
   \<and> \<not> coefficientwise same_value_zero
          (flattenTransforms [Matrix 1 0 (Infinity False) 1 0 0, new_Matrix])
          (dot new_Matrix (Matrix 1 0 (Infinity False) 1 0 0))"
  unfolding module_eval by (simp add: number_eval)

text \<open>
  C2: \<open>transform\<close> starts from a new Point with the coordinates of the argument and
  applies the matrices in the given order, each to the result of the one before; with no
  matrix the result is that Point.
\<close>

theorem transform_fold:
  "transform p ms =
     foldl (\<lambda>q m. Point (ma m * px q + mc m * py q + me m * 1)
                         (mb m * px q + md m * py q + mf m * 1))
           (Point (px p) (py p)) ms
   \<and> transform p [] = Point (px p) (py p)
   \<and> transform p (ms @ [m]) =
       Point (ma m * px (transform p ms) + mc m * py (transform p ms) + me m * 1)
             (mb m * px (transform p ms) + md m * py (transform p ms) + mf m * 1)"
  by (simp add: transform_def reduce_foldl)

subsection \<open>The identity law of \<open>dot\<close>\<close>

text \<open>
  C8, as the code has it: for every matrix whose six coefficients are finite numbers,
  \<open>M.dot(new Matrix())\<close> and \<open>(new Matrix()).dot(M)\<close> equal \<open>M\<close> coefficient for
  coefficient under \<open>===\<close> (a coefficient \<open>-0\<close> may come back as \<open>+0\<close>).
\<close>

theorem dot_identity:
  "finite_matrix M \<Longrightarrow>
     coefficientwise strict_equal (dot M new_Matrix) M
     \<and> coefficientwise strict_equal (dot new_Matrix M) M"
  by (simp add: dot_identity_right dot_identity_left)

theorem dot_identity_witness:
  "finite_matrix (Matrix (of_decimal 2 0) 0 0 (of_decimal 3 0) (of_decimal 5 0) (of_decimal 7 0))
   \<and> coefficientwise strict_equal
        (dot (Matrix (of_decimal 2 0) 0 0 (of_decimal 3 0) (of_decimal 5 0) (of_decimal 7 0)) new_Matrix)
        (Matrix (of_decimal 2 0) 0 0 (of_decimal 3 0) (of_decimal 5 0) (of_decimal 7 0))
   \<and> coefficientwise strict_equal
        (dot new_Matrix (Matrix (of_decimal 2 0) 0 0 (of_decimal 3 0) (of_decimal 5 0) (of_decimal 7 0)))
        (Matrix (of_decimal 2 0) 0 0 (of_decimal 3 0) (of_decimal 5 0) (of_decimal 7 0))"
proof -
  have h: "finite_matrix (Matrix (of_decimal 2 0) 0 0 (of_decimal 3 0) (of_decimal 5 0) (of_decimal 7 0))"
    unfolding finite_matrix_def Matrix.sel by (simp add: number_eval)
  from dot_identity [OF h] h show ?thesis by blast
qed

text \<open>
  The claim as stated, for every matrix, fails where a coefficient is infinite: with
  \<open>c = Infinity\<close> the product \<open>c * 0\<close> is NaN, and so is the coefficient \<open>a\<close> of
  \<open>M.dot(new Matrix())\<close>, while \<open>M.a\<close> is \<open>1\<close>.
\<close>

theorem dot_identity_counterexample:
  "isNaN (ma (dot (Matrix 1 0 (Infinity False) 1 0 0) new_Matrix))
   \<and> ma (Matrix 1 0 (Infinity False) 1 0 0) = (1 :: double)
   \<and> \<not> coefficientwise strict_equal
          (dot (Matrix 1 0 (Infinity False) 1 0 0) new_Matrix) (Matrix 1 0 (Infinity False) 1 0 0)
   \<and> \<not> coefficientwise same_value_zero
          (dot (Matrix 1 0 (Infinity False) 1 0 0) new_Matrix) (Matrix 1 0 (Infinity False) 1 0 0)"
  unfolding module_eval by (simp add: number_eval)

subsection \<open>Equality of points\<close>

text \<open>
  C10, as the code has it: \<open>equals\<close> is symmetric, and \<open>p.equals(p)\<close> holds exactly
  when both coordinates of \<open>p\<close> are finite: for a NaN and also for an infinite coordinate
  the difference of the coordinate with itself is NaN, which fails the comparison.
\<close>

theorem equals_symmetric_reflexive:
  "equals p q = equals q p \<and> (equals p p \<longleftrightarrow> isFinite (px p) \<and> isFinite (py p))"
  using equals_sym [of p q] equals_refl_iff [of p] by simp

text \<open>
  The claim as stated, reflexive on every point without a NaN coordinate, fails at the
  point \<open>(Infinity, 0)\<close>.
\<close>

theorem equals_reflexive_counterexample:
  "\<not> isNaN (px (Point (Infinity False) 0)) \<and> \<not> isNaN (py (Point (Infinity False) 0))
   \<and> \<not> equals (Point (Infinity False) 0) (Point (Infinity False) 0)"
  unfolding module_eval by (simp add: number_eval)

text \<open>
  C4: \<open>equals\<close> holds exactly when both coordinate differences, computed as the code
  computes them, are strictly below the literal \<open>1e-8\<close>; a difference that is exactly that
  number is not below it.
\<close>

theorem equals_iff:
  "(equals p q \<longleftrightarrow>
      Math_abs (px p - px q) < of_decimal 1 (- 8) \<and> Math_abs (py p - py q) < of_decimal 1 (- 8))
   \<and> equals (Point 0 0) (Point 0 (of_decimal 99 (- 10)))
   \<and> \<not> equals (Point 0 0) (Point 0 (of_decimal 101 (- 10)))
   \<and> (Math_abs (px p - px q) = of_decimal 1 (- 8) \<or> Math_abs (py p - py q) = of_decimal 1 (- 8)
        \<longrightarrow> \<not> equals p q)"
proof -
  have 1: "equals (Point 0 0) (Point 0 (of_decimal 99 (- 10)))"
    unfolding module_eval by (simp add: number_eval)
  have 2: "\<not> equals (Point 0 0) (Point 0 (of_decimal 101 (- 10)))"
    unfolding module_eval by (simp add: number_eval)
  have 3: "\<not> of_decimal 1 (- 8) < of_decimal 1 (- 8)"
    by (simp add: less_double_def unpack_1em8 lt_aligned_def)
  from 1 2 3 show ?thesis by (auto simp: equals_def)
qed

theorem equals_iff_witness:
  "Math_abs (py (Point 0 0) - py (Point 0 (of_decimal 1 (- 8)))) = of_decimal 1 (- 8)
   \<and> \<not> equals (Point 0 0) (Point 0 (of_decimal 1 (- 8)))"
proof -
  have h: "Math_abs (py (Point 0 0) - py (Point 0 (of_decimal 1 (- 8)))) = of_decimal 1 (- 8)"
    unfolding Point.sel by (simp add: number_eval)
  from equals_iff [of "Point 0 0" "Point 0 (of_decimal 1 (- 8))"] h show ?thesis by blast
qed

subsection \<open>Collinearity\<close>

text \<open>
  C5: fewer than three points are collinear; otherwise the result is the conjunction, over
  every point \<open>(x, y)\<close> given, of the signed comparison
  \<open>a * (n - y) + m * (y - b) + x * (b - n) < 1e-8\<close> with the first point \<open>(a, b)\<close> and the
  second \<open>(m, n)\<close>. No absolute value is taken: the last example is not collinear and passes.
\<close>

theorem areCollinear_iff:
  "(length ps < 3 \<longrightarrow> areCollinear ps)
   \<and> (3 \<le> length ps \<longrightarrow>
        (areCollinear ps \<longleftrightarrow>
          (\<forall>p \<in> set ps.
             px (ps ! 0) * (py (ps ! 1) - py p) + px (ps ! 1) * (py p - py (ps ! 0))
               + px p * (py (ps ! 0) - py (ps ! 1)) < of_decimal 1 (- 8))))
   \<and> areCollinear [Point 0 0, Point 1 1, Point (of_decimal 2 0) (of_decimal 2 0)]
   \<and> \<not> areCollinear [Point 0 0, Point 1 1, Point (of_decimal 2 0) (of_decimal 3 0)]
   \<and> areCollinear [Point 0 0, Point 1 1, Point (of_decimal 3 0) (of_decimal 2 0)]"
proof -
  have 1: "areCollinear [Point 0 0, Point 1 1, Point (of_decimal 2 0) (of_decimal 2 0)]"
    unfolding module_eval by (simp add: number_eval)
  have 2: "\<not> areCollinear [Point 0 0, Point 1 1, Point (of_decimal 2 0) (of_decimal 3 0)]"
    unfolding module_eval by (simp add: number_eval)
  have 3: "areCollinear [Point 0 0, Point 1 1, Point (of_decimal 3 0) (of_decimal 2 0)]"
    unfolding module_eval by (simp add: number_eval)
  have 4: "length ps < 3 \<longrightarrow> areCollinear ps"
    by (simp add: areCollinear_def)
  have 5: "3 \<le> length ps \<longrightarrow>
        (areCollinear ps \<longleftrightarrow>
          (\<forall>p \<in> set ps.
             px (ps ! 0) * (py (ps ! 1) - py p) + px (ps ! 1) * (py p - py (ps ! 0))
               + px p * (py (ps ! 0) - py (ps ! 1)) < of_decimal 1 (- 8)))"
    by (simp add: areCollinear_def every_iff Let_def)
  from 1 2 3 4 5 show ?thesis by blast
qed

theorem areCollinear_iff_witness:
  "length [Point 0 (1 :: double), Point 1 0] < 3 \<and> areCollinear [Point 0 1, Point 1 0]
   \<and> 3 \<le> length [Point 0 0, Point 0 1, Point 0 (of_decimal 2 0)]
   \<and> areCollinear [Point 0 0, Point 0 1, Point 0 (of_decimal 2 0)]"
proof -
  have "\<forall>p \<in> set [Point 0 0, Point 0 1, Point 0 (of_decimal 2 0)].
          px ([Point 0 0, Point 0 1, Point 0 (of_decimal 2 0)] ! 0)
            * (py ([Point 0 0, Point 0 1, Point 0 (of_decimal 2 0)] ! 1) - py p)
          + px ([Point 0 0, Point 0 1, Point 0 (of_decimal 2 0)] ! 1)
            * (py p - py ([Point 0 0, Point 0 1, Point 0 (of_decimal 2 0)] ! 0))
          + px p * (py ([Point 0 0, Point 0 1, Point 0 (of_decimal 2 0)] ! 0)
                    - py ([Point 0 0, Point 0 1, Point 0 (of_decimal 2 0)] ! 1))
          < of_decimal 1 (- 8)"
    by (simp add: number_eval)
  with areCollinear_iff [of "[Point 0 0, Point 0 1, Point 0 (of_decimal 2 0)]"]
    areCollinear_iff [of "[Point 0 1, Point 1 0]"]
  show ?thesis by simp
qed

subsection \<open>Distance\<close>

text \<open>
  C9, as the code has it: \<open>distance\<close> is the rounded square root of the sum of the two
  rounded squares (\<open>Math_pow2 v\<close> is \<open>v * v\<close>). It is never negative, and it is \<open>\<ge> 0\<close>
  whenever the coordinates are finite. It is \<open>0\<close> exactly when both squares are \<open>0\<close>: so it
  is when the finite coordinates of the two points coincide, but not only then.
\<close>

theorem distance_properties:
  "distance p1 p2 = Math_sqrt (Math_pow2 (px p2 - px p1) + Math_pow2 (py p2 - py p1))
   \<and> \<not> distance p1 p2 < 0
   \<and> (finite_point p1 \<and> finite_point p2 \<longrightarrow> 0 \<le> distance p1 p2)
   \<and> (distance p1 p2 = 0 \<longleftrightarrow>
        Math_pow2 (px p2 - px p1) = 0 \<and> Math_pow2 (py p2 - py p1) = 0)
   \<and> (finite_point p1 \<and> strict_equal (px p1) (px p2) \<and> strict_equal (py p1) (py p2)
        \<longrightarrow> distance p1 p2 = 0)"
proof -
  have "finite_point p1 \<and> finite_point p2 \<longrightarrow> 0 \<le> distance p1 p2"
    by (simp add: distance_nonneg nonneg_zero_le)
  moreover have "finite_point p1 \<and> strict_equal (px p1) (px p2) \<and> strict_equal (py p1) (py p2)
      \<longrightarrow> distance p1 p2 = 0"
    by (simp add: distance_coincide)
  moreover note distance_not_less_zero [of p1 p2] distance_eq_0_iff [of p1 p2]
  moreover have "distance p1 p2 = Math_sqrt (Math_pow2 (px p2 - px p1) + Math_pow2 (py p2 - py p1))"
    by (simp add: distance_def)
  ultimately show ?thesis by blast
qed

theorem distance_properties_witness:
  "finite_point (Point 1 (of_decimal 2 0))
   \<and> strict_equal (px (Point 1 (of_decimal 2 0))) (px (Point 1 (of_decimal 2 0)))
   \<and> strict_equal (py (Point 1 (of_decimal 2 0))) (py (Point 1 (of_decimal 2 0)))
   \<and> 0 \<le> distance (Point 1 (of_decimal 2 0)) (Point 1 (of_decimal 2 0))
   \<and> distance (Point 1 (of_decimal 2 0)) (Point 1 (of_decimal 2 0)) = 0"
proof -
  have h: "finite_point (Point 1 (of_decimal 2 0))"
    "strict_equal (px (Point 1 (of_decimal 2 0))) (px (Point 1 (of_decimal 2 0)))"
    "strict_equal (py (Point 1 (of_decimal 2 0))) (py (Point 1 (of_decimal 2 0)))"
    unfolding finite_point_def Point.sel by (simp_all add: number_eval)
  from distance_properties [of "Point 1 (of_decimal 2 0)" "Point 1 (of_decimal 2 0)"] h
  show ?thesis by blast
qed

text \<open>
  The claim as stated fails twice. The points \<open>(0, 0)\<close> and \<open>(2\<^sup>-\<^sup>6\<^sup>0\<^sup>0, 0)\<close> differ and
  are at distance \<open>0\<close>, since the square \<open>2\<^sup>-\<^sup>1\<^sup>2\<^sup>0\<^sup>0\<close> of the difference rounds to zero. And
  for a NaN coordinate the distance is NaN, which is not \<open>\<ge> 0\<close>.
\<close>

theorem distance_zero_counterexample:
  "\<not> strict_equal (px (Point 0 0)) (px (Point (pow2 (- 600)) 0))
   \<and> distance (Point 0 0) (Point (pow2 (- 600)) 0) = 0
   \<and> \<not> 0 \<le> distance (Point NaN 0) (Point 0 0)"
  unfolding module_eval by (simp add: number_eval)

subsection \<open>Inversion\<close>

text \<open>
  C3, as the code has it: in exact arithmetic, transforming a point by a matrix of
  non-zero determinant and then by its \<open>invert()\<close> gives the point back, so the closed form
  of the inverse is right; in the arithmetic of the program the round trip is within
  \<open>1e-6\<close> at the sample \<open>Matrix(2, 0, 0, 3, 5, 7)\<close>, \<open>Point(1, 1)\<close>.
\<close>

theorem invert_round_trip:
  "(ma M * md M - mb M * mc M \<noteq> 0 \<longrightarrow> transform p [M, invert M] = (p :: real Point))
   \<and> within_tolerance (of_decimal 1 (- 6))
        (transform (Point 1 1)
          [Matrix (of_decimal 2 0) 0 0 (of_decimal 3 0) (of_decimal 5 0) (of_decimal 7 0),
           invert (Matrix (of_decimal 2 0) 0 0 (of_decimal 3 0) (of_decimal 5 0) (of_decimal 7 0))])
        (Point 1 1)"
proof -
  have "ma M * md M - mb M * mc M \<noteq> 0 \<longrightarrow> transform p [M, invert M] = p"
    by (simp add: invert_round_trip_real)
  moreover have "within_tolerance (of_decimal 1 (- 6))
        (transform (Point 1 1)
          [Matrix (of_decimal 2 0) 0 0 (of_decimal 3 0) (of_decimal 5 0) (of_decimal 7 0),
           invert (Matrix (of_decimal 2 0) 0 0 (of_decimal 3 0) (of_decimal 5 0) (of_decimal 7 0))])
        (Point 1 1)"
    unfolding module_eval by (simp add: number_eval)
  ultimately show ?thesis by blast
qed

theorem invert_round_trip_witness:
  "ma (Matrix 2 0 0 3 5 7) * md (Matrix 2 0 0 3 5 7) - mb (Matrix 2 0 0 3 5 7) * mc (Matrix 2 0 0 3 5 7)
     \<noteq> (0 :: real)
   \<and> transform (Point 1 1) [Matrix 2 0 0 3 5 7, invert (Matrix 2 0 0 3 5 7)] = (Point 1 1 :: real Point)"
proof -
  have h: "ma (Matrix 2 0 0 3 5 7) * md (Matrix 2 0 0 3 5 7)
      - mb (Matrix 2 0 0 3 5 7) * mc (Matrix 2 0 0 3 5 7) \<noteq> (0 :: real)"
    by simp
  from invert_round_trip [of "Matrix 2 0 0 3 5 7" "Point 1 1"] h show ?thesis by blast
qed

text \<open>
  The claim as stated, for every matrix of non-zero determinant and every point, fails in
  the arithmetic of the program: the translation by \<open>2\<^sup>6\<^sup>0\<close> absorbs the coordinate \<open>0.5\<close>,
  and its inverse brings back \<open>0\<close>, which is \<open>0.5\<close> away.
\<close>

theorem invert_round_trip_counterexample:
  "\<not> strict_equal
        (ma (Matrix 1 0 0 1 (pow2 60) 0) * md (Matrix 1 0 0 1 (pow2 60) 0)
          - mb (Matrix 1 0 0 1 (pow2 60) 0) * mc (Matrix 1 0 0 1 (pow2 60) 0)) 0
   \<and> transform (Point (pow2 (- 1)) 0)
        [Matrix 1 0 0 1 (pow2 60) 0, invert (Matrix 1 0 0 1 (pow2 60) 0)] = Point 0 0
   \<and> \<not> within_tolerance (of_decimal 1 (- 6))
        (transform (Point (pow2 (- 1)) 0)
          [Matrix 1 0 0 1 (pow2 60) 0, invert (Matrix 1 0 0 1 (pow2 60) 0)])
        (Point (pow2 (- 1)) 0)"
  unfolding module_eval by (simp add: number_eval)

end
